theory Spec2Isabelle
  imports Main
begin

section \<open>Data model\<close>

text \<open>
  Program text (file contents, chunk text, prompts, messages) is a \<open>string\<close>.  A decoded
  JSON string value is a list of Unicode code points, because a \<open>\uXXXX\<close> escape denotes
  code points beyond one byte.  Python's \<open>float\<close> is the type parameter \<open>'f\<close>: floating
  point is not modelled, only carried around.
\<close>

type_synonym pystr = "nat list"

definition str :: "string \<Rightarrow> pystr" where
  "str s = map of_char s"

datatype 'f json =
    JNull
  | JBool bool
  | JInt int
  | JFloat 'f
  | JStr pystr
  | JArr "'f json list"
  | JObj "(pystr \<times> 'f json) list"

text \<open>
  An exception is its class name and its \<open>str(e)\<close>.  Every class of the model derives from
  \<open>Exception\<close>, so \<open>except Exception\<close> catches all of them, and
  \<open>except json.JSONDecodeError\<close> catches the class of that name only.
\<close>

datatype py_exception = Exc (exc_class: string) (exc_str: string)

definition is_JSONDecodeError :: "py_exception \<Rightarrow> bool" where
  "is_JSONDecodeError e = (exc_class e = ''JSONDecodeError'')"

text \<open>\<open>langchain.schema.Document\<close>: the text and the metadata dictionary.\<close>

record document =
  page_content :: string
  metadata :: "(string \<times> int) list"

text \<open>\<open>class LogAnalysisResponse(BaseModel)\<close> of agent.py.\<close>

record 'f LogAnalysisResponse =
  answer :: string
  relevant_logs :: "'f json list"
  total_logs_analyzed :: int

text \<open>The process environment: the name of a variable and the bytes of its value.\<close>

type_synonym environ = "string \<rightharpoonup> string"

section \<open>agent.py\<close>

text \<open>
  Lines 39 to 46: the loop that prepares \<open>context_logs\<close>.  \<open>loads\<close> stands for
  \<open>json.loads\<close>; a \<open>JSONDecodeError\<close> is caught per chunk, any other exception leaves
  the loop and reaches the outer handler.
\<close>

fun context_logs_loop ::
  "(string \<Rightarrow> py_exception + 'f json) \<Rightarrow> 'f json list \<Rightarrow> document list
    \<Rightarrow> py_exception + 'f json list" where
  "context_logs_loop loads context_logs [] = Inr context_logs"
| "context_logs_loop loads context_logs (doc # relevant_chunks) =
     (case loads (page_content doc) of
        Inr log_data \<Rightarrow> context_logs_loop loads (context_logs @ [log_data]) relevant_chunks
      | Inl e \<Rightarrow>
          if is_JSONDecodeError e
          then context_logs_loop loads
                 (context_logs @ [JObj [(str ''raw_content'', JStr (str (page_content doc)))]])
                 relevant_chunks
          else Inl e)"

definition prepare_context ::
  "(string \<Rightarrow> py_exception + 'f json) \<Rightarrow> document list \<Rightarrow> py_exception + 'f json list" where
  "prepare_context loads relevant_chunks = context_logs_loop loads [] relevant_chunks"

definition nl :: string where
  "nl = [CHR 0x0A]"

text \<open>
  Lines 49 to 56: the f-string.  \<open>dumps_indent\<close> stands for
  \<open>json.dumps(_, indent=2, default=str)\<close> of line 53, which returns the text or raises
  (\<open>RecursionError\<close> on a value nested too deep, for one); when it raises, no prompt is
  built.
\<close>

definition context_text ::
  "('f json \<Rightarrow> py_exception + string) \<Rightarrow> string \<Rightarrow> 'f json list \<Rightarrow> py_exception + string" where
  "context_text dumps_indent question context_logs =
     (case dumps_indent (JArr context_logs) of
        Inl e \<Rightarrow> Inl e
      | Inr logs \<Rightarrow>
          Inr (nl @ ''        Question: '' @ question @ nl @
               ''        '' @ nl @
               ''        Log Entries to Analyze:'' @ nl @
               ''        '' @ logs @ nl @
               ''        '' @ nl @
               ''        Please analyze these logs to answer the question. Provide insights, patterns, and specific findings.'' @ nl @
               ''        ''))"

text \<open>
  Line 58: \<open>os.environ["OPENAI_API_KEY"] = api_key\<close>.  The environment holds bytes.
  \<open>fsencode\<close> stands for the encoding of the value (the file-system encoding with
  \<open>surrogateescape\<close>), which raises \<open>UnicodeEncodeError\<close> on a string it cannot
  encode; \<open>putenv\<close> then refuses bytes with an embedded null byte with
  \<open>ValueError\<close>.  The name is a literal that encodes to itself.
\<close>

definition environ_setitem ::
  "(string \<Rightarrow> py_exception + string) \<Rightarrow> environ \<Rightarrow> string \<Rightarrow> string
    \<Rightarrow> py_exception + environ" where
  "environ_setitem fsencode env k v =
     (case fsencode v of
        Inl e \<Rightarrow> Inl e
      | Inr b \<Rightarrow>
          if CHR 0x00 \<in> set b
          then Inl (Exc ''ValueError'' ''embedded null byte'')
          else Inr (env(k \<mapsto> b)))"

text \<open>
  The state \<open>analyze_logs_with_agent\<close> touches: the process environment and the prompts
  submitted to the model provider so far.
\<close>

record agent_state =
  os_environ :: environ
  llm_prompts :: "string list"

text \<open>
  The body of the outer \<open>try\<close> (lines 38 to 61), in the order of the source: the loop,
  the prompt, the assignment to the environment, the call of the model.  The first step
  that raises ends the body, and the later steps do not run.  \<open>run_sync\<close> stands for
  \<open>log_analysis_agent.run_sync(_).output\<close>: the provider reads its key from the
  environment, and answers with a validated \<open>LogAnalysisResponse\<close> or raises.
\<close>

definition analyze_try ::
  "(string \<Rightarrow> py_exception + 'f json) \<Rightarrow> ('f json \<Rightarrow> py_exception + string)
    \<Rightarrow> (string \<Rightarrow> py_exception + string)
    \<Rightarrow> (environ \<Rightarrow> string \<Rightarrow> py_exception + 'f LogAnalysisResponse)
    \<Rightarrow> string \<Rightarrow> document list \<Rightarrow> string \<Rightarrow> agent_state
    \<Rightarrow> (py_exception + 'f LogAnalysisResponse) \<times> agent_state" where
  "analyze_try loads dumps_indent fsencode run_sync question relevant_chunks api_key s =
     (case prepare_context loads relevant_chunks of
        Inl e \<Rightarrow> (Inl e, s)
      | Inr context_logs \<Rightarrow>
          (case context_text dumps_indent question context_logs of
             Inl e \<Rightarrow> (Inl e, s)
           | Inr prompt \<Rightarrow>
               (case environ_setitem fsencode (os_environ s) ''OPENAI_API_KEY'' api_key of
                  Inl e \<Rightarrow> (Inl e, s)
                | Inr env \<Rightarrow>
                    (run_sync env prompt,
                     s\<lparr>os_environ := env, llm_prompts := llm_prompts s @ [prompt]\<rparr>))))"

text \<open>Lines 36 to 69, with the \<open>except Exception\<close> handler.\<close>

definition analyze_logs_with_agent ::
  "(string \<Rightarrow> py_exception + 'f json) \<Rightarrow> ('f json \<Rightarrow> py_exception + string)
    \<Rightarrow> (string \<Rightarrow> py_exception + string)
    \<Rightarrow> (environ \<Rightarrow> string \<Rightarrow> py_exception + 'f LogAnalysisResponse)
    \<Rightarrow> string \<Rightarrow> document list \<Rightarrow> string \<Rightarrow> agent_state
    \<Rightarrow> 'f LogAnalysisResponse \<times> agent_state" where
  "analyze_logs_with_agent loads dumps_indent fsencode run_sync question relevant_chunks api_key s =
     (case analyze_try loads dumps_indent fsencode run_sync question relevant_chunks api_key s of
        (Inr output, s') \<Rightarrow> (output, s')
      | (Inl e, s') \<Rightarrow>
          (\<lparr>answer = ''Error analyzing logs: '' @ exc_str e,
            relevant_logs = [],
            total_logs_analyzed = 0\<rparr>, s'))"

section \<open>app.py\<close>

text \<open>
  The Streamlit calls a handler makes, in order.  Text outside ASCII is kept as its UTF-8
  bytes.
\<close>

datatype 'f st_call =
    st_error string
  | st_warning string
  | st_info string
  | st_success string
  | st_spinner string
  | st_subheader string
  | st_markdown string
  | st_write string
  | st_expander string
  | st_json "'f json"
  | st_divider

text \<open>\<open>str(n)\<close> of a natural number and of an integer.\<close>

fun str_nat :: "nat \<Rightarrow> string" where
  "str_nat n =
     (if n < 10 then [''0123456789'' ! n]
      else str_nat (n div 10) @ [''0123456789'' ! (n mod 10)])"

declare str_nat.simps [simp del]

definition str_int :: "int \<Rightarrow> string" where
  "str_int i = (if i < 0 then CHR ''-'' # str_nat (nat (- i)) else str_nat (nat i))"

text \<open>The truth value of \<open>os.getenv(...)\<close>: set and not empty.\<close>

definition truthy :: "string option \<Rightarrow> bool" where
  "truthy v = (case v of None \<Rightarrow> False | Some s \<Rightarrow> s \<noteq> [])"

subsection \<open>Upload tab\<close>

text \<open>
  Lines 50 to 60: one \<open>Document\<close> per element of the array, in order.  \<open>dumps\<close> stands
  for \<open>json.dumps\<close>.
\<close>

definition make_document :: "('f json \<Rightarrow> string) \<Rightarrow> nat \<times> 'f json \<Rightarrow> document" where
  "make_document dumps p =
     (case p of (i, log_entry) \<Rightarrow>
        \<lparr>page_content = dumps log_entry, metadata = [(''index'', int i)]\<rparr>)"

definition build_documents :: "('f json \<Rightarrow> string) \<Rightarrow> 'f json list \<Rightarrow> document list" where
  "build_documents dumps json_data =
     foldl (\<lambda>documents p. documents @ [make_document dumps p]) [] (enumerate 0 json_data)"

text \<open>
  The handler of the button "Process JSON Logs" (lines 27 to 75).  \<open>uploaded_file\<close> is
  the content of the uploaded file, if any; \<open>api_key\<close> is what line 20 read from the
  environment; \<open>json_load\<close> stands for \<open>json.load\<close>; \<open>from_documents\<close> stands for lines
  44 to 67, the embeddings object and \<open>Chroma.from_documents\<close> on the persistent
  directory \<open>db\<close>: it returns the exception raised, if any, and the directory afterwards.
\<close>

definition check_mark :: string where
  "check_mark = [CHR 0xE2, CHR 0x9C, CHR 0x85]"

definition process_json_logs ::
  "(string \<Rightarrow> py_exception + 'f json) \<Rightarrow> ('f json \<Rightarrow> string)
    \<Rightarrow> (string \<Rightarrow> document list \<Rightarrow> 'db \<Rightarrow> py_exception option \<times> 'db)
    \<Rightarrow> string option \<Rightarrow> string option \<Rightarrow> 'db \<Rightarrow> 'f st_call list \<times> 'db" where
  "process_json_logs json_load dumps from_documents uploaded_file api_key db =
     (case uploaded_file of
        None \<Rightarrow> ([st_error ''Please upload a JSON file''], db)
      | Some content \<Rightarrow>
          if \<not> truthy api_key then ([st_error ''Please enter your OpenAI API key''], db)
          else
            (case json_load content of
               Inl e \<Rightarrow>
                 if is_JSONDecodeError e then ([st_error ''Invalid JSON file''], db)
                 else ([st_error (''Error: '' @ exc_str e)], db)
             | Inr (JArr json_data) \<Rightarrow>
                 let found = [st_info (''Found '' @ str_nat (length json_data) @ '' log entries''),
                              st_spinner ''Processing logs and storing in ChromaDB...''];
                     documents = build_documents dumps json_data
                 in (case from_documents (the api_key) documents db of
                       (Some e, db') \<Rightarrow> (found @ [st_error (''Error: '' @ exc_str e)], db')
                     | (None, db') \<Rightarrow>
                         (found @
                          [st_success (check_mark @ '' Successfully processed '' @
                                       str_nat (length documents) @ '' logs!''),
                           st_info ''Embeddings stored in ChromaDB''], db'))
             | Inr _ \<Rightarrow> ([st_error ''JSON file should contain an array of objects''], db)))"

subsection \<open>Retrieval\<close>

text \<open>
  \<open>get_relevant_chunks\<close> (lines 78 to 107).  \<open>similarity_search\<close> stands for lines 91 to
  102: the embeddings object for the key, the \<open>Chroma\<close> handle on the persistent
  directory and its \<open>similarity_search(question, k=k)\<close>.
\<close>

definition get_relevant_chunks ::
  "(string \<Rightarrow> string \<Rightarrow> int \<Rightarrow> py_exception + document list)
    \<Rightarrow> string \<Rightarrow> string \<Rightarrow> int \<Rightarrow> document list \<times> 'f st_call list" where
  "get_relevant_chunks similarity_search question api_key k =
     (case similarity_search api_key question k of
        Inr relevant_docs \<Rightarrow> (relevant_docs, [])
      | Inl e \<Rightarrow> ([], [st_error (''Error fetching relevant chunks: '' @ exc_str e)]))"

subsection \<open>Chat tab\<close>

definition emoji_chart :: string where
  "emoji_chart = [CHR 0xF0, CHR 0x9F, CHR 0x93, CHR 0x8A]"

definition emoji_bulb :: string where
  "emoji_bulb = [CHR 0xF0, CHR 0x9F, CHR 0x92, CHR 0xA1]"

definition emoji_page :: string where
  "emoji_page = [CHR 0xF0, CHR 0x9F, CHR 0x93, CHR 0x84]"

definition emoji_glass :: string where
  "emoji_glass = [CHR 0xF0, CHR 0x9F, CHR 0x94, CHR 0x8D]"

definition emoji_brain :: string where
  "emoji_brain = [CHR 0xF0, CHR 0x9F, CHR 0xA7, CHR 0xA0]"

text \<open>Lines 139 to 152: what is shown of a response.\<close>

definition show_relevant_log :: "nat \<times> 'f json \<Rightarrow> 'f st_call list" where
  "show_relevant_log p =
     (case p of (i, log_entry) \<Rightarrow>
        [st_markdown (''**Relevant Log '' @ str_nat (i + 1) @ '':**''),
         st_json log_entry,
         st_divider])"

definition display_results :: "'f LogAnalysisResponse \<Rightarrow> 'f st_call list" where
  "display_results response =
     [st_subheader (emoji_chart @ '' Analysis Results''),
      st_markdown (''### '' @ emoji_bulb @ '' Answer''),
      st_write (answer response)] @
     (if relevant_logs response \<noteq> []
      then st_expander (emoji_page @ '' Relevant Log Entries (From Analysis)'') #
           concat (map show_relevant_log (enumerate 0 (relevant_logs response)))
      else [])"

text \<open>
  The handler of the button "Analyze Logs" (lines 116 to 160), with the button pressed.
  It yields the Streamlit calls made, the value bound to \<open>response\<close> when line 137 ran,
  and the state afterwards.  None of the calls in the model raises, so the handler of
  line 162 has no branch here.
\<close>

definition analyze_logs_handler ::
  "(string \<Rightarrow> py_exception + 'f json) \<Rightarrow> ('f json \<Rightarrow> py_exception + string)
    \<Rightarrow> (string \<Rightarrow> py_exception + string)
    \<Rightarrow> (environ \<Rightarrow> string \<Rightarrow> py_exception + 'f LogAnalysisResponse)
    \<Rightarrow> (string \<Rightarrow> string \<Rightarrow> int \<Rightarrow> py_exception + document list)
    \<Rightarrow> string \<Rightarrow> int \<Rightarrow> agent_state
    \<Rightarrow> 'f st_call list \<times> 'f LogAnalysisResponse option \<times> agent_state" where
  "analyze_logs_handler loads dumps_indent fsencode run_sync similarity_search question num_chunks s =
     (let search_api_key = os_environ s ''OPENAI_API_KEY'' in
      if truthy search_api_key then
        if question \<noteq> [] then
          (case get_relevant_chunks similarity_search question (the search_api_key) num_chunks of
             (relevant_docs, shown) \<Rightarrow>
               if relevant_docs \<noteq> [] then
                 (case analyze_logs_with_agent loads dumps_indent fsencode run_sync
                         question relevant_docs (the search_api_key) s of
                    (response, s') \<Rightarrow>
                      (st_spinner (emoji_glass @ '' Searching relevant logs...'') # shown @
                       st_spinner (emoji_brain @ '' Analyzing logs with AI...'') #
                       display_results response,
                       Some response, s'))
               else
                 (st_spinner (emoji_glass @ '' Searching relevant logs...'') # shown @
                  [st_warning ''No relevant logs found for your question.''],
                  None, s))
        else ([st_warning ''Please enter a question''], None, s)
      else
        ([st_error ''Please set OPENAI_API_KEY environment variable'',
          st_info ''You can set it by running: `export OPENAI_API_KEY=your_api_key_here`''],
         None, s))"

section \<open>The vector store\<close>

text \<open>
  The embedding provider and the Chroma collection are external services.  A collection is
  the list of stored chunks, each a document with its vector; the persistent directory
  holds a collection or does not exist yet.  \<open>embedder\<close> stands for the embedding provider
  called with a key on a text, \<open>sim\<close> for the similarity of two vectors.
\<close>

type_synonym 'v collection = "(document \<times> 'v) list"

fun embed_documents ::
  "(string \<Rightarrow> py_exception + 'v) \<Rightarrow> string list \<Rightarrow> py_exception + 'v list" where
  "embed_documents embed_text [] = Inr []"
| "embed_documents embed_text (t # ts) =
     (case embed_text t of
        Inl e \<Rightarrow> Inl e
      | Inr v \<Rightarrow>
          (case embed_documents embed_text ts of
             Inl e \<Rightarrow> Inl e
           | Inr vs \<Rightarrow> Inr (v # vs)))"

text \<open>
  Modelled from the spec: \<open>ingest(pairs)\<close> of the Embedding/Store Gateway, which the code
  delegates to \<open>Chroma.from_documents\<close> (not under src/).  It computes a vector per text
  and appends (text, metadata, vector) to any existing collection; a provider error is
  surfaced to the caller and nothing is written.
\<close>

definition store_from_documents ::
  "(string \<Rightarrow> string \<Rightarrow> py_exception + 'v) \<Rightarrow> string \<Rightarrow> document list
    \<Rightarrow> 'v collection option \<Rightarrow> py_exception option \<times> 'v collection option" where
  "store_from_documents embedder api_key documents db =
     (case embed_documents (embedder api_key) (map page_content documents) of
        Inl e \<Rightarrow> (Some e, db)
      | Inr vectors \<Rightarrow>
          (None, Some ((case db of None \<Rightarrow> [] | Some stored \<Rightarrow> stored) @ zip documents vectors)))"

text \<open>
  Modelled from the spec: \<open>search(query, k)\<close> of the Embedding/Store Gateway, which the
  code delegates to \<open>Chroma.similarity_search\<close> (not under src/).  It embeds the query
  and returns up to \<open>k\<close> stored chunks by decreasing similarity; on a store that does not
  exist yet it fails with \<open>StoreNotFoundError\<close>.
\<close>

definition nearest :: "('v \<Rightarrow> 'v \<Rightarrow> 's::linorder) \<Rightarrow> 'v \<Rightarrow> int \<Rightarrow> 'v collection \<Rightarrow> 'v collection" where
  "nearest sim q k stored = take (nat k) (rev (sort_key (\<lambda>c. sim q (snd c)) stored))"

definition store_similarity_search ::
  "(string \<Rightarrow> string \<Rightarrow> py_exception + 'v) \<Rightarrow> ('v \<Rightarrow> 'v \<Rightarrow> 's::linorder)
    \<Rightarrow> 'v collection option \<Rightarrow> string \<Rightarrow> string \<Rightarrow> int \<Rightarrow> py_exception + document list" where
  "store_similarity_search embedder sim db api_key question k =
     (case db of
        None \<Rightarrow> Inl (Exc ''StoreNotFoundError'' ''the store does not exist yet'')
      | Some stored \<Rightarrow>
          (case embedder api_key question of
             Inl e \<Rightarrow> Inl e
           | Inr q \<Rightarrow> Inr (map fst (nearest sim q k stored))))"

section \<open>The json module\<close>

text \<open>
  \<open>json.dumps\<close> with its default arguments (\<open>ensure_ascii\<close>, separators \<open>", "\<close> and
  \<open>": "\<close>) and \<open>json.loads\<close> on a \<open>str\<close>, as the Python standard library does them.  The
  two are not code of this repository; they are written out because the round trip of a
  log entry is a property of the pair.  \<open>floatstr\<close> is \<open>float.__repr__\<close> and
  \<open>parse_float\<close> is \<open>float\<close>.  A \<open>JSONDecodeError\<close> carries its message without the
  position.
\<close>

abbreviation dquote :: char where "dquote \<equiv> CHR 0x22"
abbreviation bslash :: char where "bslash \<equiv> CHR 0x5C"

subsection \<open>Encoding\<close>

definition hex_digit :: "nat \<Rightarrow> char" where
  "hex_digit d = ''0123456789abcdef'' ! d"

definition hex4 :: "nat \<Rightarrow> string" where
  "hex4 n = map hex_digit [n div 4096 mod 16, n div 256 mod 16, n div 16 mod 16, n mod 16]"

text \<open>
  What \<open>encode_basestring_ascii\<close> puts for one code point: the short escapes, the
  printable ASCII characters as they are, \<open>\uXXXX\<close> for the rest of the basic plane and a
  surrogate pair above it.
\<close>

definition escape_code_point :: "nat \<Rightarrow> string" where
  "escape_code_point c =
     (if c = 0x22 then [bslash, dquote]
      else if c = 0x5C then [bslash, bslash]
      else if c = 0x0A then [bslash, CHR ''n'']
      else if c = 0x0D then [bslash, CHR ''r'']
      else if c = 0x09 then [bslash, CHR ''t'']
      else if c = 0x08 then [bslash, CHR ''b'']
      else if c = 0x0C then [bslash, CHR ''f'']
      else if 0x20 \<le> c \<and> c \<le> 0x7E then [char_of c]
      else if c < 0x10000 then bslash # CHR ''u'' # hex4 c
      else bslash # CHR ''u'' # hex4 (0xD800 + (c - 0x10000) div 1024 mod 1024) @
           bslash # CHR ''u'' # hex4 (0xDC00 + (c - 0x10000) mod 1024))"

definition encode_basestring_ascii :: "pystr \<Rightarrow> string" where
  "encode_basestring_ascii s = dquote # concat (map escape_code_point s) @ [dquote]"

text \<open>
  The encoder: \<open>null\<close>, \<open>true\<close>, \<open>false\<close>, \<open>int.__repr__\<close>, \<open>floatstr\<close>, the encoded
  string, and lists and dictionaries with their separators.
\<close>

fun json_dumps :: "('f \<Rightarrow> string) \<Rightarrow> 'f json \<Rightarrow> string"
  and dumps_items :: "('f \<Rightarrow> string) \<Rightarrow> 'f json list \<Rightarrow> string"
  and dumps_members :: "('f \<Rightarrow> string) \<Rightarrow> (pystr \<times> 'f json) list \<Rightarrow> string" where
  "json_dumps floatstr JNull = ''null''"
| "json_dumps floatstr (JBool b) = (if b then ''true'' else ''false'')"
| "json_dumps floatstr (JInt i) = str_int i"
| "json_dumps floatstr (JFloat f) = floatstr f"
| "json_dumps floatstr (JStr s) = encode_basestring_ascii s"
| "json_dumps floatstr (JArr xs) = ''['' @ dumps_items floatstr xs @ '']''"
| "json_dumps floatstr (JObj kvs) = ''{'' @ dumps_members floatstr kvs @ ''}''"
| "dumps_items floatstr [] = []"
| "dumps_items floatstr [x] = json_dumps floatstr x"
| "dumps_items floatstr (x # y # ys) =
     json_dumps floatstr x @ '', '' @ dumps_items floatstr (y # ys)"
| "dumps_members floatstr [] = []"
| "dumps_members floatstr [(k, v)] =
     encode_basestring_ascii k @ '': '' @ json_dumps floatstr v"
| "dumps_members floatstr ((k, v) # m # ms) =
     encode_basestring_ascii k @ '': '' @ json_dumps floatstr v @ '', '' @
     dumps_members floatstr (m # ms)"

subsection \<open>Decoding\<close>

definition is_ws :: "char \<Rightarrow> bool" where
  "is_ws c = (c = CHR '' '' \<or> c = CHR 0x09 \<or> c = CHR 0x0A \<or> c = CHR 0x0D)"

definition skip_ws :: "string \<Rightarrow> string" where
  "skip_ws s = dropWhile is_ws s"

definition is_digit :: "char \<Rightarrow> bool" where
  "is_digit c = (c \<in> set ''0123456789'')"

definition decode_error :: "string \<Rightarrow> py_exception" where
  "decode_error msg = Exc ''JSONDecodeError'' msg"

definition hex_val :: "char \<Rightarrow> nat option" where
  "hex_val c =
     (let n = of_char c :: nat in
      if 48 \<le> n \<and> n \<le> 57 then Some (n - 48)
      else if 97 \<le> n \<and> n \<le> 102 then Some (n - 87)
      else if 65 \<le> n \<and> n \<le> 70 then Some (n - 55)
      else None)"

definition hex4_val :: "string \<Rightarrow> nat option" where
  "hex4_val s =
     (case map hex_val s of
        [Some a, Some b, Some c, Some d] \<Rightarrow> Some (((a * 16 + b) * 16 + c) * 16 + d)
      | _ \<Rightarrow> None)"

definition simple_escape :: "char \<Rightarrow> nat option" where
  "simple_escape e =
     (if e = dquote then Some 0x22
      else if e = bslash then Some 0x5C
      else if e = CHR ''/'' then Some 0x2F
      else if e = CHR ''b'' then Some 0x08
      else if e = CHR ''f'' then Some 0x0C
      else if e = CHR ''n'' then Some 0x0A
      else if e = CHR ''r'' then Some 0x0D
      else if e = CHR ''t'' then Some 0x09
      else None)"

text \<open>
  \<open>scanstring\<close> in strict mode, after the opening quote: raw characters from \<open>0x20\<close>
  on, the escapes, and a high surrogate joined with a low surrogate that follows it.
\<close>

fun scanstring :: "pystr \<Rightarrow> string \<Rightarrow> py_exception + (pystr \<times> string)" where
  "scanstring acc [] = Inl (decode_error ''Unterminated string starting at'')"
| "scanstring acc (c # r) =
     (if c = dquote then Inr (acc, r)
      else if c \<noteq> bslash then
        (if (of_char c :: nat) < 0x20 then Inl (decode_error ''Invalid control character at'')
         else scanstring (acc @ [of_char c]) r)
      else
        (case r of
           [] \<Rightarrow> Inl (decode_error ''Unterminated string starting at'')
         | e # r' \<Rightarrow>
             if e \<noteq> CHR ''u'' then
               (case simple_escape e of
                  None \<Rightarrow> Inl (decode_error ''Invalid escape'')
                | Some u \<Rightarrow> scanstring (acc @ [u]) r')
             else
               (case hex4_val (take 4 r') of
                  None \<Rightarrow> Inl (decode_error ''Invalid uXXXX escape'')
                | Some u \<Rightarrow>
                    if 0xD800 \<le> u \<and> u \<le> 0xDBFF \<and> take 2 (drop 4 r') = [bslash, CHR ''u'']
                    then
                      (case hex4_val (take 4 (drop 6 r')) of
                         None \<Rightarrow> Inl (decode_error ''Invalid uXXXX escape'')
                       | Some u2 \<Rightarrow>
                           if 0xDC00 \<le> u2 \<and> u2 \<le> 0xDFFF
                           then scanstring
                                  (acc @ [0x10000 + (u - 0xD800) * 1024 + (u2 - 0xDC00)])
                                  (drop 10 r')
                           else scanstring (acc @ [u]) (drop 4 r'))
                    else scanstring (acc @ [u]) (drop 4 r'))))"

text \<open>
  The number scanner: an optional minus sign, \<open>0\<close> or a digit from 1 to 9 with more
  digits, then an optional fraction and an optional exponent.  It yields the token,
  whether it is a float, and the rest of the text.
\<close>

definition scan_exponent :: "string \<Rightarrow> string \<times> string" where
  "scan_exponent s =
     (case s of
        [] \<Rightarrow> ([], s)
      | e # r \<Rightarrow>
          if e = CHR ''e'' \<or> e = CHR ''E'' then
            (let (sign, r') = (case r of
                                 [] \<Rightarrow> ([], r)
                               | c # t \<Rightarrow> if c = CHR ''-'' \<or> c = CHR ''+'' then ([c], t)
                                          else ([], r))
             in if takeWhile is_digit r' = [] then ([], s)
                else (e # sign @ takeWhile is_digit r', dropWhile is_digit r'))
          else ([], s))"

definition scan_fraction :: "string \<Rightarrow> string \<times> string" where
  "scan_fraction s =
     (case s of
        p # d # r \<Rightarrow>
          if p = CHR ''.'' \<and> is_digit d
          then (p # d # takeWhile is_digit r, dropWhile is_digit r)
          else ([], s)
      | _ \<Rightarrow> ([], s))"

definition scan_integer :: "string \<Rightarrow> (string \<times> string) option" where
  "scan_integer s =
     (case s of
        [] \<Rightarrow> None
      | c # r \<Rightarrow>
          if c = CHR ''0'' then Some ([c], r)
          else if is_digit c then Some (c # takeWhile is_digit r, dropWhile is_digit r)
          else None)"

definition match_number :: "string \<Rightarrow> (string \<times> bool \<times> string) option" where
  "match_number s =
     (let (sign, s1) = (case s of
                          [] \<Rightarrow> ([], s)
                        | c # r \<Rightarrow> if c = CHR ''-'' then ([c], r) else ([], s))
      in case scan_integer s1 of
           None \<Rightarrow> None
         | Some (digits, s2) \<Rightarrow>
             (let (frac, s3) = scan_fraction s2;
                  (ex, s4) = scan_exponent s3
              in Some (sign @ digits @ frac @ ex, frac \<noteq> [] \<or> ex \<noteq> [], s4)))"

definition nat_of_digits :: "string \<Rightarrow> nat" where
  "nat_of_digits ds = foldl (\<lambda>a c. 10 * a + (of_char c - 48)) 0 ds"

definition int_of_token :: "string \<Rightarrow> int" where
  "int_of_token tok =
     (case tok of
        [] \<Rightarrow> 0
      | c # ds \<Rightarrow> if c = CHR ''-'' then - int (nat_of_digits ds) else int (nat_of_digits tok))"

text \<open>\<open>d[k] = v\<close> on a dictionary in insertion order.\<close>

fun dict_setitem :: "('k \<times> 'v) list \<Rightarrow> 'k \<Rightarrow> 'v \<Rightarrow> ('k \<times> 'v) list" where
  "dict_setitem [] k v = [(k, v)]"
| "dict_setitem (p # ps) k v = (if fst p = k then (k, v) # ps else p # dict_setitem ps k v)"

text \<open>Strings, literals and numbers: the values \<open>scan_once\<close> reads without recursion.\<close>

definition scan_atom :: "(string \<Rightarrow> 'f) \<Rightarrow> string \<Rightarrow> py_exception + ('f json \<times> string)" where
  "scan_atom parse_float s =
     (case s of
        [] \<Rightarrow> Inl (decode_error ''Expecting value'')
      | c # r \<Rightarrow>
          if c = dquote then
            (case scanstring [] r of
               Inl e \<Rightarrow> Inl e
             | Inr (v, r') \<Rightarrow> Inr (JStr v, r'))
          else if c = CHR ''n'' \<and> take 3 r = ''ull'' then Inr (JNull, drop 3 r)
          else if c = CHR ''t'' \<and> take 3 r = ''rue'' then Inr (JBool True, drop 3 r)
          else if c = CHR ''f'' \<and> take 4 r = ''alse'' then Inr (JBool False, drop 4 r)
          else if c = CHR ''N'' \<and> take 2 r = ''aN''
            then Inr (JFloat (parse_float ''NaN''), drop 2 r)
          else if c = CHR ''I'' \<and> take 7 r = ''nfinity''
            then Inr (JFloat (parse_float ''Infinity''), drop 7 r)
          else if c = CHR ''-'' \<and> take 8 r = ''Infinity''
            then Inr (JFloat (parse_float ''-Infinity''), drop 8 r)
          else
            (case match_number s of
               None \<Rightarrow> Inl (decode_error ''Expecting value'')
             | Some (tok, is_float, r') \<Rightarrow>
                 Inr (if is_float then JFloat (parse_float tok) else JInt (int_of_token tok), r')))"

text \<open>A property name, the colon after it and the whitespace around the colon.\<close>

definition scan_key :: "string \<Rightarrow> py_exception + (pystr \<times> string)" where
  "scan_key s =
     (case s of
        [] \<Rightarrow> Inl (decode_error ''Expecting property name enclosed in double quotes'')
      | q # r \<Rightarrow>
          if q \<noteq> dquote
          then Inl (decode_error ''Expecting property name enclosed in double quotes'')
          else
            (case scanstring [] r of
               Inl e \<Rightarrow> Inl e
             | Inr (key, r1) \<Rightarrow>
                 (case skip_ws r1 of
                    [] \<Rightarrow> Inl (decode_error ''Expecting : delimiter'')
                  | c # r2 \<Rightarrow>
                      if c \<noteq> CHR '':'' then Inl (decode_error ''Expecting : delimiter'')
                      else Inr (key, skip_ws r2))))"

text \<open>
  \<open>scan_once\<close>, the array loop and the object loop.  The first argument after
  \<open>parse_float\<close> bounds the calls still allowed; \<open>json_loads\<close> starts with twice the
  length of the text and one more, which is enough for every text \<open>json_dumps\<close> writes.
  Python's own recursion limit is not modelled.
\<close>

fun scan_once :: "(string \<Rightarrow> 'f) \<Rightarrow> nat \<Rightarrow> string \<Rightarrow> py_exception + ('f json \<times> string)"
  and parse_array :: "(string \<Rightarrow> 'f) \<Rightarrow> nat \<Rightarrow> 'f json list \<Rightarrow> string
                        \<Rightarrow> py_exception + ('f json \<times> string)"
  and parse_object :: "(string \<Rightarrow> 'f) \<Rightarrow> nat \<Rightarrow> (pystr \<times> 'f json) list \<Rightarrow> string
                        \<Rightarrow> py_exception + ('f json \<times> string)" where
  "scan_once parse_float 0 s = Inl (Exc ''RecursionError'' ''maximum recursion depth exceeded'')"
| "scan_once parse_float (Suc n) s =
     (if take 1 s = ''{'' then
        (case skip_ws (drop 1 s) of
           [] \<Rightarrow> Inl (decode_error ''Expecting property name enclosed in double quotes'')
         | c # r \<Rightarrow>
             if c = CHR ''}'' then Inr (JObj [], r)
             else parse_object parse_float n [] (c # r))
      else if take 1 s = ''['' then
        (case skip_ws (drop 1 s) of
           [] \<Rightarrow> Inl (decode_error ''Expecting value'')
         | c # r \<Rightarrow>
             if c = CHR '']'' then Inr (JArr [], r)
             else parse_array parse_float n [] (c # r))
      else scan_atom parse_float s)"
| "parse_array parse_float 0 values s =
     Inl (Exc ''RecursionError'' ''maximum recursion depth exceeded'')"
| "parse_array parse_float (Suc n) values s =
     (case scan_once parse_float n s of
        Inl e \<Rightarrow> Inl e
      | Inr (v, r) \<Rightarrow>
          (case skip_ws r of
             [] \<Rightarrow> Inl (decode_error ''Expecting , delimiter'')
           | c # r' \<Rightarrow>
               if c = CHR '']'' then Inr (JArr (values @ [v]), r')
               else if c = CHR '','' then parse_array parse_float n (values @ [v]) (skip_ws r')
               else Inl (decode_error ''Expecting , delimiter'')))"
| "parse_object parse_float 0 pairs s =
     Inl (Exc ''RecursionError'' ''maximum recursion depth exceeded'')"
| "parse_object parse_float (Suc n) pairs s =
     (case scan_key s of
        Inl e \<Rightarrow> Inl e
      | Inr (key, r) \<Rightarrow>
          (case scan_once parse_float n r of
             Inl e \<Rightarrow> Inl e
           | Inr (v, r') \<Rightarrow>
               (case skip_ws r' of
                  [] \<Rightarrow> Inl (decode_error ''Expecting , delimiter'')
                | c # r'' \<Rightarrow>
                    if c = CHR ''}'' then Inr (JObj (dict_setitem pairs key v), r'')
                    else if c = CHR '','' then
                      parse_object parse_float n (dict_setitem pairs key v) (skip_ws r'')
                    else Inl (decode_error ''Expecting , delimiter''))))"

definition json_loads :: "(string \<Rightarrow> 'f) \<Rightarrow> string \<Rightarrow> py_exception + 'f json" where
  "json_loads parse_float s =
     (case scan_once parse_float (2 * length s + 1) (skip_ws s) of
        Inl e \<Rightarrow> Inl e
      | Inr (v, r) \<Rightarrow> if skip_ws r = [] then Inr v else Inl (decode_error ''Extra data''))"

declare scan_once.simps [simp del] parse_array.simps [simp del] parse_object.simps [simp del]
  scanstring.simps [simp del]

section \<open>Notions the properties are stated with\<close>

text \<open>
  What one retrieved chunk contributes to the context: the parsed value, or the raw text
  wrapped under the key \<open>raw_content\<close>.
\<close>

definition context_object :: "(string \<Rightarrow> py_exception + 'f json) \<Rightarrow> document \<Rightarrow> 'f json" where
  "context_object loads doc =
     (case loads (page_content doc) of
        Inr log_data \<Rightarrow> log_data
      | Inl e \<Rightarrow> JObj [(str ''raw_content'', JStr (str (page_content doc)))])"

text \<open>On these chunks \<open>json.loads\<close> returns or raises \<open>JSONDecodeError\<close>, nothing else.\<close>

definition only_decode_errors :: "(string \<Rightarrow> py_exception + 'f json) \<Rightarrow> document list \<Rightarrow> bool" where
  "only_decode_errors loads docs =
     list_all (\<lambda>doc. case loads (page_content doc) of
                        Inr v \<Rightarrow> True
                      | Inl e \<Rightarrow> is_JSONDecodeError e) docs"

text \<open>\<open>isinstance(json_data, list)\<close>.\<close>

definition isinstance_list :: "'f json \<Rightarrow> bool" where
  "isinstance_list v = (case v of JArr xs \<Rightarrow> True | _ \<Rightarrow> False)"

text \<open>
  A well-formed log entry: every string holds Unicode scalar values only, the keys of an
  object differ, and every float prints as a JSON number with a fraction or an exponent
  that \<open>float\<close> reads back as the same float.
\<close>

definition scalar_value :: "nat \<Rightarrow> bool" where
  "scalar_value c = (c < 0x110000 \<and> \<not> (0xD800 \<le> c \<and> c \<le> 0xDFFF))"

fun wf_json :: "('f \<Rightarrow> string) \<Rightarrow> (string \<Rightarrow> 'f) \<Rightarrow> 'f json \<Rightarrow> bool"
  and wf_items :: "('f \<Rightarrow> string) \<Rightarrow> (string \<Rightarrow> 'f) \<Rightarrow> 'f json list \<Rightarrow> bool"
  and wf_members :: "('f \<Rightarrow> string) \<Rightarrow> (string \<Rightarrow> 'f) \<Rightarrow> (pystr \<times> 'f json) list \<Rightarrow> bool" where
  "wf_json floatstr parse_float JNull = True"
| "wf_json floatstr parse_float (JBool b) = True"
| "wf_json floatstr parse_float (JInt i) = True"
| "wf_json floatstr parse_float (JFloat f) =
     (match_number (floatstr f) = Some (floatstr f, True, []) \<and> parse_float (floatstr f) = f)"
| "wf_json floatstr parse_float (JStr s) = list_all scalar_value s"
| "wf_json floatstr parse_float (JArr xs) = wf_items floatstr parse_float xs"
| "wf_json floatstr parse_float (JObj kvs) =
     (distinct (map fst kvs) \<and> wf_members floatstr parse_float kvs)"
| "wf_items floatstr parse_float [] = True"
| "wf_items floatstr parse_float (x # xs) =
     (wf_json floatstr parse_float x \<and> wf_items floatstr parse_float xs)"
| "wf_members floatstr parse_float [] = True"
| "wf_members floatstr parse_float ((k, v) # ms) =
     (list_all scalar_value k \<and> wf_json floatstr parse_float v
      \<and> wf_members floatstr parse_float ms)"

text \<open>What may follow a number: the end of the text or a character no number continues with.\<close>

definition number_end :: "string \<Rightarrow> bool" where
  "number_end r = (case r of [] \<Rightarrow> True | c # _ \<Rightarrow> c \<notin> set ''0123456789.eE+-'')"

text \<open>A character a serialized value can start with.\<close>

definition value_start :: "char \<Rightarrow> bool" where
  "value_start c = (\<not> is_ws c \<and> c \<noteq> CHR '']'' \<and> c \<noteq> CHR ''}'')"

text \<open>The calls the decoder needs to read a value back.\<close>

fun depth_fuel :: "'f json \<Rightarrow> nat"
  and items_fuel :: "'f json list \<Rightarrow> nat"
  and members_fuel :: "(pystr \<times> 'f json) list \<Rightarrow> nat" where
  "depth_fuel (JArr xs) = Suc (items_fuel xs)"
| "depth_fuel (JObj kvs) = Suc (members_fuel kvs)"
| "depth_fuel _ = Suc 0"
| "items_fuel [] = 0"
| "items_fuel (x # xs) = Suc (depth_fuel x + items_fuel xs)"
| "members_fuel [] = 0"
| "members_fuel ((k, v) # ms) = Suc (depth_fuel v + members_fuel ms)"

text \<open>The value of the text that opens and closes \<open>n + 1\<close> brackets: \<open>[[...[]...]]\<close>.\<close>

fun nested :: "nat \<Rightarrow> 'f json" where
  "nested 0 = JArr []"
| "nested (Suc n) = JArr [nested n]"

section \<open>Properties of agent.py\<close>

lemma context_logs_loop_map:
  "only_decode_errors loads docs \<Longrightarrow>
   context_logs_loop loads acc docs = Inr (acc @ map (context_object loads) docs)"
  by (induction docs arbitrary: acc)
     (auto simp: only_decode_errors_def context_object_def split: sum.splits)

lemma context_logs_loop_length:
  "context_logs_loop loads acc docs = Inr ctx \<Longrightarrow> length ctx = length acc + length docs"
proof (induction docs arbitrary: acc)
  case Nil
  then show ?case by simp
next
  case (Cons doc docs)
  show ?case
  proof (cases "loads (page_content doc)")
    case (Inl e)
    with Cons.prems have "is_JSONDecodeError e"
      by (auto split: if_splits)
    with Cons.prems Inl
      Cons.IH [of "acc @ [JObj [(str ''raw_content'', JStr (str (page_content doc)))]]"]
    show ?thesis by simp
  next
    case (Inr v)
    with Cons.prems Cons.IH [of "acc @ [v]"] show ?thesis by simp
  qed
qed

lemma context_logs_loop_raises:
  "\<not> only_decode_errors loads docs \<Longrightarrow>
   \<exists>e. context_logs_loop loads acc docs = Inl e \<and> \<not> is_JSONDecodeError e
       \<and> (\<exists>doc \<in> set docs. loads (page_content doc) = Inl e)"
proof (induction docs arbitrary: acc)
  case Nil
  then show ?case by (simp add: only_decode_errors_def)
next
  case (Cons doc docs)
  show ?case
  proof (cases "loads (page_content doc)")
    case (Inr v)
    with Cons.prems have "\<not> only_decode_errors loads docs"
      by (simp add: only_decode_errors_def)
    from Cons.IH [OF this, of "acc @ [v]"] Inr show ?thesis by auto
  next
    case (Inl e)
    show ?thesis
    proof (cases "is_JSONDecodeError e")
      case True
      with Cons.prems Inl have "\<not> only_decode_errors loads docs"
        by (simp add: only_decode_errors_def)
      from Cons.IH [OF this,
          of "acc @ [JObj [(str ''raw_content'', JStr (str (page_content doc)))]]"] Inl True
      show ?thesis by auto
    next
      case False
      with Inl show ?thesis by auto
    qed
  qed
qed

lemma str_nat_4301: "str_nat 4301 = ''4301''"
  by (simp add: str_nat.simps)

text \<open>
  C1.  \<open>analyze_logs_with_agent\<close> answers with a response on every input.  Either the
  context was prepared, the prompt was built, the key was stored, the model answered, and
  the response is the model's output; or one of these four steps raised some \<open>e\<close>, and
  the response is "Error analyzing logs: " followed by \<open>str(e)\<close>, with no relevant logs
  and a count of 0.
\<close>

theorem analyze_logs_with_agent_total:
  "(\<exists>ctx prompt env. prepare_context L cs = Inr ctx
       \<and> context_text D q ctx = Inr prompt
       \<and> environ_setitem E (os_environ s) ''OPENAI_API_KEY'' key = Inr env
       \<and> R env prompt = Inr (fst (analyze_logs_with_agent L D E R q cs key s)))
   \<or> (\<exists>e. (prepare_context L cs = Inl e
            \<or> (\<exists>ctx. prepare_context L cs = Inr ctx
                  \<and> context_text D q ctx = Inl e)
            \<or> (\<exists>ctx prompt. prepare_context L cs = Inr ctx
                  \<and> context_text D q ctx = Inr prompt
                  \<and> environ_setitem E (os_environ s) ''OPENAI_API_KEY'' key = Inl e)
            \<or> (\<exists>ctx prompt env. prepare_context L cs = Inr ctx
                  \<and> context_text D q ctx = Inr prompt
                  \<and> environ_setitem E (os_environ s) ''OPENAI_API_KEY'' key = Inr env
                  \<and> R env prompt = Inl e))
         \<and> answer (fst (analyze_logs_with_agent L D E R q cs key s))
             = ''Error analyzing logs: '' @ exc_str e
         \<and> relevant_logs (fst (analyze_logs_with_agent L D E R q cs key s)) = []
         \<and> total_logs_analyzed (fst (analyze_logs_with_agent L D E R q cs key s)) = 0)"
proof (cases "prepare_context L cs")
  case (Inl e)
  then show ?thesis
    by (auto simp: analyze_logs_with_agent_def analyze_try_def)
next
  case ctx: (Inr ctx)
  show ?thesis
  proof (cases "context_text D q ctx")
    case (Inl e)
    with ctx show ?thesis
      by (auto simp: analyze_logs_with_agent_def analyze_try_def)
  next
    case prompt: (Inr prompt)
    show ?thesis
    proof (cases "environ_setitem E (os_environ s) ''OPENAI_API_KEY'' key")
      case (Inl e)
      with ctx prompt show ?thesis
        by (auto simp: analyze_logs_with_agent_def analyze_try_def)
    next
      case env: (Inr env)
      show ?thesis
      proof (cases "R env prompt")
        case (Inl e)
        with ctx prompt env show ?thesis
          by (auto simp: analyze_logs_with_agent_def analyze_try_def)
      next
        case (Inr out)
        with ctx prompt env show ?thesis
          by (auto simp: analyze_logs_with_agent_def analyze_try_def)
      qed
    qed
  qed
qed

text \<open>
  Two runs.  In the first the model times out.  In the second \<open>json.loads\<close> delivers
  an array nested 1500 deep, as it does in Python 3.12, and \<open>json.dumps\<close> of line 53,
  which recurses in Python code, raises \<open>RecursionError\<close>: the response is the error
  response, the key is not stored and the model is not called.
\<close>

theorem analyze_logs_with_agent_total_witness:
  "answer (fst (analyze_logs_with_agent
      (\<lambda>t. Inr (JInt 1 :: unit json)) (\<lambda>j. Inr ''[1]'') (\<lambda>key. Inr key)
      (\<lambda>env prompt. Inl (Exc ''TimeoutError'' ''timed out''))
      ''how many?'' [\<lparr>page_content = ''1'', metadata = [(''index'', 0)]\<rparr>] ''sk-1''
      \<lparr>os_environ = Map.empty, llm_prompts = []\<rparr>))
   = ''Error analyzing logs: timed out''
   \<and> analyze_logs_with_agent
      (\<lambda>t. Inr (nested 1499 :: unit json))
      (\<lambda>j. Inl (Exc ''RecursionError''
                 ''maximum recursion depth exceeded''))
      (\<lambda>key. Inr key)
      (\<lambda>env prompt. Inr \<lparr>answer = ''ok'', relevant_logs = [], total_logs_analyzed = 1\<rparr>)
      ''how many?''
      [\<lparr>page_content = replicate 1500 CHR ''['' @ replicate 1500 CHR '']'',
        metadata = [(''index'', 0)]\<rparr>]
      ''sk-1'' \<lparr>os_environ = Map.empty, llm_prompts = []\<rparr>
   = (\<lparr>answer = ''Error analyzing logs: maximum recursion depth exceeded'',
       relevant_logs = [], total_logs_analyzed = 0\<rparr>,
      \<lparr>os_environ = Map.empty, llm_prompts = []\<rparr>)"
proof -
  let ?D = "\<lambda>j::unit json. Inl (Exc ''RecursionError''
              ''maximum recursion depth exceeded'')
              :: py_exception + string"
  let ?R = "\<lambda>(env::environ) (prompt::string).
              Inr \<lparr>answer = ''ok'', relevant_logs = [], total_logs_analyzed = 1\<rparr>
              :: py_exception + unit LogAnalysisResponse"
  let ?cs = "[\<lparr>page_content = replicate 1500 CHR ''['' @ replicate 1500 CHR '']'',
               metadata = [(''index'', 0)]\<rparr>]"
  let ?s = "\<lparr>os_environ = Map.empty, llm_prompts = []\<rparr>"
  have "answer (fst (analyze_logs_with_agent
      (\<lambda>t. Inr (JInt 1 :: unit json)) (\<lambda>j. Inr ''[1]'') (\<lambda>key. Inr key)
      (\<lambda>env prompt. Inl (Exc ''TimeoutError'' ''timed out''))
      ''how many?'' [\<lparr>page_content = ''1'', metadata = [(''index'', 0)]\<rparr>] ''sk-1''
      \<lparr>os_environ = Map.empty, llm_prompts = []\<rparr>))
   = ''Error analyzing logs: timed out''"
    using analyze_logs_with_agent_total
      [where L = "\<lambda>t. Inr (JInt 1 :: unit json)" and D = "\<lambda>j. Inr ''[1]''"
         and E = "\<lambda>key. Inr key"
         and R = "\<lambda>env prompt. Inl (Exc ''TimeoutError'' ''timed out'')"
         and q = "''how many?''"
         and cs = "[\<lparr>page_content = ''1'', metadata = [(''index'', 0)]\<rparr>]"
         and key = "''sk-1''" and s = "\<lparr>os_environ = Map.empty, llm_prompts = []\<rparr>"]
    by (auto simp: prepare_context_def context_text_def environ_setitem_def)
  moreover have "prepare_context (\<lambda>t. Inr (nested 1499 :: unit json)) ?cs = Inr [nested 1499]"
    by (simp add: prepare_context_def)
  then have "snd (analyze_logs_with_agent (\<lambda>t. Inr (nested 1499 :: unit json)) ?D
                (\<lambda>key. Inr key) ?R ''how many?'' ?cs ''sk-1'' ?s) = ?s"
    and "relevant_logs (fst (analyze_logs_with_agent (\<lambda>t. Inr (nested 1499 :: unit json)) ?D
                (\<lambda>key. Inr key) ?R ''how many?'' ?cs ''sk-1'' ?s)) = []"
    and "total_logs_analyzed (fst (analyze_logs_with_agent (\<lambda>t. Inr (nested 1499 :: unit json))
                ?D (\<lambda>key. Inr key) ?R ''how many?'' ?cs ''sk-1'' ?s)) = 0"
    and "answer (fst (analyze_logs_with_agent (\<lambda>t. Inr (nested 1499 :: unit json)) ?D
                (\<lambda>key. Inr key) ?R ''how many?'' ?cs ''sk-1'' ?s))
         = ''Error analyzing logs: maximum recursion depth exceeded''"
    using analyze_logs_with_agent_total
      [where L = "\<lambda>t. Inr (nested 1499 :: unit json)" and D = ?D
         and E = "\<lambda>key. Inr key" and R = ?R and q = "''how many?''"
         and cs = ?cs and key = "''sk-1''" and s = ?s]
    by (auto simp: context_text_def analyze_logs_with_agent_def analyze_try_def)
  ultimately show ?thesis
    by (simp add: prod_eq_iff)
qed

text \<open>
  C6, as the code has it.  When \<open>json.loads\<close> returns or raises \<open>JSONDecodeError\<close> on
  every retrieved chunk, the context list has one entry per chunk, in retrieval order:
  the parsed value where the text parses, the text under \<open>raw_content\<close> where it does
  not.  When \<open>json.loads\<close> raises another exception on some chunk, the loop ends with
  that exception, raised for one of the chunks, and there is no context list: the chunks
  read so far are dropped with the rest, and \<open>analyze_logs_with_agent\<close> answers with
  the error response and does nothing else.
\<close>

theorem prepare_context_keeps_every_chunk:
  "(only_decode_errors loads relevant_chunks \<longrightarrow>
      (\<exists>context_logs. prepare_context loads relevant_chunks = Inr context_logs
         \<and> length context_logs = length relevant_chunks
         \<and> (\<forall>i < length relevant_chunks.
               context_logs ! i = context_object loads (relevant_chunks ! i))))
   \<and> (\<not> only_decode_errors loads relevant_chunks \<longrightarrow>
      (\<exists>e. prepare_context loads relevant_chunks = Inl e
         \<and> \<not> is_JSONDecodeError e
         \<and> (\<exists>doc \<in> set relevant_chunks. loads (page_content doc) = Inl e)
         \<and> analyze_logs_with_agent loads D E R q relevant_chunks key s
             = (\<lparr>answer = ''Error analyzing logs: '' @ exc_str e,
                 relevant_logs = [], total_logs_analyzed = 0\<rparr>, s)))"
proof (cases "only_decode_errors loads relevant_chunks")
  case True
  with context_logs_loop_map [of loads relevant_chunks "[]"]
  show ?thesis by (simp add: prepare_context_def)
next
  case False
  from context_logs_loop_raises [OF this, of "[]"]
  obtain e where e: "prepare_context loads relevant_chunks = Inl e"
      "\<not> is_JSONDecodeError e"
      "\<exists>doc \<in> set relevant_chunks. loads (page_content doc) = Inl e"
    by (auto simp: prepare_context_def)
  from e(1) have "analyze_logs_with_agent loads D E R q relevant_chunks key s
             = (\<lparr>answer = ''Error analyzing logs: '' @ exc_str e,
                 relevant_logs = [], total_logs_analyzed = 0\<rparr>, s)"
    by (simp add: analyze_logs_with_agent_def analyze_try_def)
  with e False show ?thesis by blast
qed

theorem prepare_context_keeps_every_chunk_witness:
  "only_decode_errors
     (\<lambda>t. if t = ''1'' then Inr (JInt 1 :: unit json)
           else Inl (Exc ''JSONDecodeError'' ''Expecting value''))
     [\<lparr>page_content = ''1'', metadata = [(''index'', 0)]\<rparr>,
      \<lparr>page_content = ''not json'', metadata = [(''index'', 1)]\<rparr>]
   \<and> prepare_context
     (\<lambda>t. if t = ''1'' then Inr (JInt 1 :: unit json)
           else Inl (Exc ''JSONDecodeError'' ''Expecting value''))
     [\<lparr>page_content = ''1'', metadata = [(''index'', 0)]\<rparr>,
      \<lparr>page_content = ''not json'', metadata = [(''index'', 1)]\<rparr>]
     = Inr [JInt 1, JObj [(str ''raw_content'', JStr (str ''not json''))]]
   \<and> \<not> only_decode_errors
     (\<lambda>t. if t = ''1'' then Inr (JInt 1 :: unit json)
           else Inl (Exc ''RecursionError''
                  ''maximum recursion depth exceeded while decoding a JSON array from a unicode string''))
     [\<lparr>page_content = ''1'', metadata = [(''index'', 0)]\<rparr>,
      \<lparr>page_content = replicate 100000 CHR ''['', metadata = [(''index'', 1)]\<rparr>]
   \<and> prepare_context
     (\<lambda>t. if t = ''1'' then Inr (JInt 1 :: unit json)
           else Inl (Exc ''RecursionError''
                  ''maximum recursion depth exceeded while decoding a JSON array from a unicode string''))
     [\<lparr>page_content = ''1'', metadata = [(''index'', 0)]\<rparr>,
      \<lparr>page_content = replicate 100000 CHR ''['', metadata = [(''index'', 1)]\<rparr>]
     = Inl (Exc ''RecursionError''
                  ''maximum recursion depth exceeded while decoding a JSON array from a unicode string'')"
proof -
  let ?L = "\<lambda>t. if t = ''1'' then Inr (JInt 1 :: unit json)
                 else Inl (Exc ''JSONDecodeError'' ''Expecting value'')"
  let ?cs = "[\<lparr>page_content = ''1'', metadata = [(''index'', 0)]\<rparr>,
              \<lparr>page_content = ''not json'', metadata = [(''index'', 1)]\<rparr>]"
  let ?L' = "\<lambda>t. if t = ''1'' then Inr (JInt 1 :: unit json)
                 else Inl (Exc ''RecursionError''
                  ''maximum recursion depth exceeded while decoding a JSON array from a unicode string'')"
  let ?cs' = "[\<lparr>page_content = ''1'', metadata = [(''index'', 0)]\<rparr>,
               \<lparr>page_content = replicate 100000 CHR ''['', metadata = [(''index'', 1)]\<rparr>]"
  have h: "only_decode_errors ?L ?cs"
    by (simp add: only_decode_errors_def is_JSONDecodeError_def)
  from prepare_context_keeps_every_chunk [of ?L ?cs] h
  obtain ctx where "prepare_context ?L ?cs = Inr ctx"
    by blast
  with h have first: "only_decode_errors ?L ?cs
      \<and> prepare_context ?L ?cs = Inr [JInt 1, JObj [(str ''raw_content'', JStr (str ''not json''))]]"
    by (simp add: prepare_context_def is_JSONDecodeError_def)
  have "length (replicate 100000 CHR ''['') \<noteq> length ''1''"
    by simp
  then have ne: "replicate 100000 CHR ''['' \<noteq> ''1''"
    by (rule contrapos_nn) (erule arg_cong)
  then have h': "\<not> only_decode_errors ?L' ?cs'"
    by (simp add: only_decode_errors_def is_JSONDecodeError_def)
  from prepare_context_keeps_every_chunk [of ?L' ?cs'] h'
  obtain e where "prepare_context ?L' ?cs' = Inl e"
    by blast
  with h' ne have "\<not> only_decode_errors ?L' ?cs'
      \<and> prepare_context ?L' ?cs' = Inl (Exc ''RecursionError''
                  ''maximum recursion depth exceeded while decoding a JSON array from a unicode string'')"
    by (auto simp: prepare_context_def is_JSONDecodeError_def)
  with first show ?thesis by blast
qed

text \<open>
  C6, as the spec has it, fails.  Since Python 3.11 \<open>int\<close> refuses a literal of more than
  4300 digits with \<open>ValueError\<close>, and so does \<open>json.loads\<close> on a text that is such a
  literal.  \<open>ValueError\<close> is not a \<open>JSONDecodeError\<close>: of two retrieved chunks, the
  first of which parses, none reaches a context list.
\<close>

theorem context_dropped_counterexample:
  "length [\<lparr>page_content = ''1'', metadata = [(''index'', 0)]\<rparr>,
           \<lparr>page_content = replicate 4301 CHR ''1'', metadata = [(''index'', 1::int)]\<rparr>] = 2
   \<and> prepare_context
     (\<lambda>t. if length t \<le> 4300 then Inr (JInt 1 :: unit json)
           else Inl (Exc ''ValueError''
                  (''Exceeds the limit (4300 digits) for integer string conversion: value has ''
                   @ str_nat (length t)
                   @ '' digits; use sys.set_int_max_str_digits() to increase the limit'')))
     [\<lparr>page_content = ''1'', metadata = [(''index'', 0)]\<rparr>,
      \<lparr>page_content = replicate 4301 CHR ''1'', metadata = [(''index'', 1)]\<rparr>]
     = Inl (Exc ''ValueError''
         ''Exceeds the limit (4300 digits) for integer string conversion: value has 4301 digits; use sys.set_int_max_str_digits() to increase the limit'')"
  by (simp add: prepare_context_def is_JSONDecodeError_def str_nat_4301)

text \<open>
  C3, as the code has it.  On a successful call the response is the model's output, returned
  as it is: \<open>total_logs_analyzed\<close> is the number the model reported.  The model was shown
  as many context logs as chunks were passed in, but the code does not put that number
  into the response.
\<close>

theorem analyze_logs_with_agent_returns_model_output:
  assumes "prepare_context L cs = Inr ctx"
    and "context_text D q ctx = Inr prompt"
    and "environ_setitem E (os_environ s) ''OPENAI_API_KEY'' key = Inr env"
    and "R env prompt = Inr out"
  shows "fst (analyze_logs_with_agent L D E R q cs key s) = out
         \<and> total_logs_analyzed (fst (analyze_logs_with_agent L D E R q cs key s))
             = total_logs_analyzed out
         \<and> length ctx = length cs"
  using assms context_logs_loop_length [of L "[]" cs ctx]
  by (simp add: analyze_logs_with_agent_def analyze_try_def prepare_context_def)

theorem analyze_logs_with_agent_returns_model_output_witness:
  "fst (analyze_logs_with_agent
      (\<lambda>t. Inr (JInt 1 :: unit json)) (\<lambda>j. Inr ''[1]'') (\<lambda>key. Inr key)
      (\<lambda>env prompt. Inr \<lparr>answer = ''ok'', relevant_logs = [], total_logs_analyzed = 7\<rparr>)
      ''how many?'' [\<lparr>page_content = ''1'', metadata = [(''index'', 0)]\<rparr>] ''sk-1''
      \<lparr>os_environ = Map.empty, llm_prompts = []\<rparr>)
   = \<lparr>answer = ''ok'', relevant_logs = [], total_logs_analyzed = 7\<rparr>"
proof -
  let ?L = "\<lambda>t::string. Inr (JInt 1 :: unit json) :: py_exception + unit json"
  let ?D = "\<lambda>j::unit json. Inr ''[1]'' :: py_exception + string"
  let ?E = "\<lambda>key::string. Inr key :: py_exception + string"
  let ?cs = "[\<lparr>page_content = ''1'', metadata = [(''index'', 0)]\<rparr>]"
  let ?s = "\<lparr>os_environ = Map.empty, llm_prompts = []\<rparr>"
  let ?R = "\<lambda>(env::environ) (prompt::string).
              Inr \<lparr>answer = ''ok'', relevant_logs = [], total_logs_analyzed = 7\<rparr>
              :: py_exception + unit LogAnalysisResponse"
  obtain prompt where h2: "context_text ?D ''how many?'' [JInt 1] = Inr prompt"
    by (simp add: context_text_def)
  have h1: "prepare_context ?L ?cs = Inr [JInt 1]"
    by (simp add: prepare_context_def)
  have h3: "environ_setitem ?E (os_environ ?s) ''OPENAI_API_KEY'' ''sk-1''
              = Inr [''OPENAI_API_KEY'' \<mapsto> ''sk-1'']"
    by (simp add: environ_setitem_def)
  have h4: "?R [''OPENAI_API_KEY'' \<mapsto> ''sk-1''] prompt
              = Inr \<lparr>answer = ''ok'', relevant_logs = [], total_logs_analyzed = 7\<rparr>"
    by simp
  from analyze_logs_with_agent_returns_model_output [OF h1 h2 h3 h4]
  show ?thesis by simp
qed

text \<open>
  C3, as the spec has it, fails: one chunk is presented, the model reports 7, and 7 is
  what the response says.
\<close>

theorem total_logs_analyzed_counterexample:
  "prepare_context (\<lambda>t. Inr (JInt 1)) [\<lparr>page_content = ''1'', metadata = [(''index'', 0)]\<rparr>]
     = Inr [JInt 1 :: unit json]
   \<and> total_logs_analyzed (fst (analyze_logs_with_agent
        (\<lambda>t. Inr (JInt 1)) (\<lambda>j. Inr ''[1]'') (\<lambda>key. Inr key)
        (\<lambda>env prompt. Inr \<lparr>answer = ''ok'', relevant_logs = [], total_logs_analyzed = 7\<rparr>)
        ''how many?'' [\<lparr>page_content = ''1'', metadata = [(''index'', 0)]\<rparr>] ''sk-1''
        \<lparr>os_environ = Map.empty, llm_prompts = []\<rparr>) :: unit LogAnalysisResponse)
     \<noteq> int (length [\<lparr>page_content = ''1'', metadata = [(''index'', 0::int)]\<rparr>])"
  by (simp add: analyze_logs_with_agent_def analyze_try_def prepare_context_def
      context_text_def environ_setitem_def)

text \<open>
  C8, as the code has it.  \<open>analyze_logs_with_agent\<close> is given the key as an argument
  and hands it to the model provider through the process environment.  Once the context is
  prepared and the prompt is built, it encodes the key and writes the bytes into the
  environment, under \<open>OPENAI_API_KEY\<close>; the model is called with that environment, and
  the key is still there when the call is over.  No other variable changes.  Nothing is
  written when an earlier step raised, when the key cannot be encoded, or when its bytes
  hold a null byte.
\<close>

theorem api_key_written_to_environment:
  "os_environ (snd (analyze_logs_with_agent L D E R q cs key s)) =
     (case prepare_context L cs of
        Inl e \<Rightarrow> os_environ s
      | Inr ctx \<Rightarrow>
          (case context_text D q ctx of
             Inl e \<Rightarrow> os_environ s
           | Inr prompt \<Rightarrow>
               (case E key of
                  Inl e \<Rightarrow> os_environ s
                | Inr b \<Rightarrow>
                    if CHR 0x00 \<in> set b then os_environ s
                    else (os_environ s)(''OPENAI_API_KEY'' \<mapsto> b))))
   \<and> (\<forall>ctx prompt b.
         prepare_context L cs = Inr ctx \<and> context_text D q ctx = Inr prompt
         \<and> E key = Inr b \<and> CHR 0x00 \<notin> set b \<longrightarrow>
         fst (analyze_try L D E R q cs key s)
           = R ((os_environ s)(''OPENAI_API_KEY'' \<mapsto> b)) prompt)"
  by (auto simp: analyze_logs_with_agent_def analyze_try_def environ_setitem_def
      split: sum.splits)

theorem api_key_written_to_environment_witness:
  "os_environ (snd (analyze_logs_with_agent
      (\<lambda>t. Inr (JInt 1 :: unit json)) (\<lambda>j. Inr ''[1]'') (\<lambda>key. Inr key)
      (\<lambda>env prompt.
         if env ''OPENAI_API_KEY'' = Some ''sk-1''
         then Inr \<lparr>answer = ''ok'', relevant_logs = [], total_logs_analyzed = 1\<rparr>
         else Inl (Exc ''OpenAIError'' ''The api_key client option must be set''))
      ''how many?'' [\<lparr>page_content = ''1'', metadata = [(''index'', 0)]\<rparr>] ''sk-1''
      \<lparr>os_environ = [''HOME'' \<mapsto> ''/root''], llm_prompts = []\<rparr>))
   = [''HOME'' \<mapsto> ''/root'', ''OPENAI_API_KEY'' \<mapsto> ''sk-1'']
   \<and> fst (analyze_try
      (\<lambda>t. Inr (JInt 1 :: unit json)) (\<lambda>j. Inr ''[1]'') (\<lambda>key. Inr key)
      (\<lambda>env prompt.
         if env ''OPENAI_API_KEY'' = Some ''sk-1''
         then Inr \<lparr>answer = ''ok'', relevant_logs = [], total_logs_analyzed = 1\<rparr>
         else Inl (Exc ''OpenAIError'' ''The api_key client option must be set''))
      ''how many?'' [\<lparr>page_content = ''1'', metadata = [(''index'', 0)]\<rparr>] ''sk-1''
      \<lparr>os_environ = [''HOME'' \<mapsto> ''/root''], llm_prompts = []\<rparr>)
   = Inr \<lparr>answer = ''ok'', relevant_logs = [], total_logs_analyzed = 1\<rparr>"
  using api_key_written_to_environment
    [where L = "\<lambda>t. Inr (JInt 1 :: unit json)" and D = "\<lambda>j. Inr ''[1]''"
       and E = "\<lambda>key. Inr key"
       and R = "\<lambda>env prompt.
         if env ''OPENAI_API_KEY'' = Some ''sk-1''
         then Inr \<lparr>answer = ''ok'', relevant_logs = [], total_logs_analyzed = 1\<rparr>
         else Inl (Exc ''OpenAIError'' ''The api_key client option must be set'')"
       and q = "''how many?''"
       and cs = "[\<lparr>page_content = ''1'', metadata = [(''index'', 0)]\<rparr>]"
       and key = "''sk-1''"
       and s = "\<lparr>os_environ = [''HOME'' \<mapsto> ''/root''], llm_prompts = []\<rparr>"]
  by (simp add: prepare_context_def context_text_def)

text \<open>
  C8, as the spec has it, fails: the environment holds no key before the call and holds
  the caller's key after it.
\<close>

theorem api_key_persisted_counterexample:
  "os_environ \<lparr>os_environ = Map.empty, llm_prompts = []\<rparr> ''OPENAI_API_KEY'' = None
   \<and> os_environ (snd (analyze_logs_with_agent
        (\<lambda>t. Inr (JInt 1 :: unit json)) (\<lambda>j. Inr ''[1]'') (\<lambda>key. Inr key)
        (\<lambda>env prompt. Inr \<lparr>answer = ''ok'', relevant_logs = [], total_logs_analyzed = 1\<rparr>)
        ''how many?'' [\<lparr>page_content = ''1'', metadata = [(''index'', 0)]\<rparr>] ''sk-1''
        \<lparr>os_environ = Map.empty, llm_prompts = []\<rparr>)) ''OPENAI_API_KEY'' = Some ''sk-1''"
  by (simp add: analyze_logs_with_agent_def analyze_try_def prepare_context_def
      context_text_def environ_setitem_def)

section \<open>Properties of app.py\<close>

subsection \<open>Upload\<close>

lemma build_documents_map:
  "build_documents dumps json_data = map (make_document dumps) (enumerate 0 json_data)"
proof -
  have "foldl (\<lambda>documents p. documents @ [make_document dumps p]) acc ps
          = acc @ map (make_document dumps) ps" for acc and ps :: "(nat \<times> 'a json) list"
    by (induction ps arbitrary: acc) simp_all
  then show ?thesis by (simp add: build_documents_def)
qed

lemma build_documents_length: "length (build_documents dumps json_data) = length json_data"
  by (simp add: build_documents_map)

lemma build_documents_nth:
  "i < length json_data \<Longrightarrow>
   build_documents dumps json_data ! i
     = \<lparr>page_content = dumps (json_data ! i), metadata = [(''index'', int i)]\<rparr>"
  by (simp add: build_documents_map make_document_def nth_enumerate_eq)

lemma embed_documents_length:
  "embed_documents f ts = Inr vs \<Longrightarrow> length vs = length ts"
  by (induction ts arbitrary: vs) (auto split: sum.splits)

text \<open>
  C4.  A file that parses to an array of \<open>N\<close> elements, uploaded with a key set and
  embedded without a provider error, adds exactly \<open>N\<close> chunks to the collection, after
  what was stored before.  The chunk at position \<open>i\<close> has the serialized element \<open>i\<close> as
  its text and \<open>{"index": i}\<close> as its metadata, whatever JSON value the element is.
\<close>

theorem ingest_stores_one_chunk_per_element:
  assumes "json_load content = Inr (JArr json_data)"
    and "truthy api_key"
    and "embed_documents (embedder (the api_key)) (map dumps json_data) = Inr vectors"
  shows "\<exists>added.
           snd (process_json_logs json_load dumps (store_from_documents embedder)
                  (Some content) api_key db)
             = Some ((case db of None \<Rightarrow> [] | Some stored \<Rightarrow> stored) @ added)
           \<and> length added = length json_data
           \<and> (\<forall>i < length json_data.
                 fst (added ! i)
                   = \<lparr>page_content = dumps (json_data ! i), metadata = [(''index'', int i)]\<rparr>)"
proof -
  let ?docs = "build_documents dumps json_data"
  have texts: "map page_content ?docs = map dumps json_data"
    by (rule nth_equalityI) (simp_all add: build_documents_length build_documents_nth)
  have len: "length vectors = length json_data"
    using embed_documents_length [OF assms(3)] by simp
  have "snd (process_json_logs json_load dumps (store_from_documents embedder)
               (Some content) api_key db)
          = Some ((case db of None \<Rightarrow> [] | Some stored \<Rightarrow> stored) @ zip ?docs vectors)"
    using assms texts by (simp add: process_json_logs_def store_from_documents_def Let_def)
  moreover have "length (zip ?docs vectors) = length json_data"
    by (simp add: len build_documents_length)
  moreover have "\<forall>i < length json_data. fst (zip ?docs vectors ! i)
       = \<lparr>page_content = dumps (json_data ! i), metadata = [(''index'', int i)]\<rparr>"
    by (simp add: len build_documents_length build_documents_nth)
  ultimately show ?thesis by blast
qed

theorem ingest_stores_one_chunk_per_element_witness:
  "snd (process_json_logs
          (\<lambda>content. Inr (JArr [JInt 1, JNull :: unit json]))
          (\<lambda>j. if j = JNull then ''null'' else ''1'')
          (store_from_documents (\<lambda>key text. Inr (length text)))
          (Some ''[1, null]'') (Some ''sk-1'') None)
   = Some [(\<lparr>page_content = ''1'', metadata = [(''index'', 0)]\<rparr>, 1),
           (\<lparr>page_content = ''null'', metadata = [(''index'', 1)]\<rparr>, 4)]"
proof -
  let ?load = "\<lambda>content::string. Inr (JArr [JInt 1, JNull :: unit json])
                 :: py_exception + unit json"
  let ?dumps = "\<lambda>j::unit json. if j = JNull then ''null'' else ''1''"
  let ?embedder = "\<lambda>(key::string) (text::string). Inr (length text) :: py_exception + nat"
  have h1: "?load ''[1, null]'' = Inr (JArr [JInt 1, JNull])"
    by simp
  have h2: "truthy (Some ''sk-1'')"
    by (simp add: truthy_def)
  have h3: "embed_documents (?embedder (the (Some ''sk-1''))) (map ?dumps [JInt 1, JNull])
              = Inr [1, 4]"
    by simp
  from ingest_stores_one_chunk_per_element [OF h1 h2 h3, where db = None]
  obtain added where
    "snd (process_json_logs ?load ?dumps (store_from_documents ?embedder)
            (Some ''[1, null]'') (Some ''sk-1'') None) = Some ([] @ added)"
    by auto
  then show ?thesis
    by (auto simp: process_json_logs_def store_from_documents_def build_documents_map
        make_document_def truthy_def enumerate_eq_zip upt_rec eval_nat_numeral)
qed

text \<open>
  C5.  A file whose top-level value is not an array is rejected: the persistent directory
  is what it was before, nothing of the file is stored, and, with a key set, the only
  thing shown is the error "JSON file should contain an array of objects".
\<close>

theorem non_array_is_rejected:
  assumes "json_load content = Inr json_data"
    and "\<not> isinstance_list json_data"
  shows "snd (process_json_logs json_load dumps from_documents (Some content) api_key db) = db
         \<and> (truthy api_key \<longrightarrow>
              fst (process_json_logs json_load dumps from_documents (Some content) api_key db)
                = [st_error ''JSON file should contain an array of objects''])"
  using assms
  by (cases json_data) (simp_all add: process_json_logs_def isinstance_list_def)

theorem non_array_is_rejected_witness:
  "process_json_logs
     (\<lambda>content. Inr (JObj [] :: unit json))
     (\<lambda>j. ''{}'')
     (store_from_documents (\<lambda>key text. Inr (length text)))
     (Some ''{}'') (Some ''sk-1'') None
   = ([st_error ''JSON file should contain an array of objects''], None)"
proof -
  let ?load = "\<lambda>content::string. Inr (JObj [] :: unit json)
                 :: py_exception + unit json"
  have h1: "?load ''{}'' = Inr (JObj [])"
    by simp
  have h2: "\<not> isinstance_list (JObj [] :: unit json)"
    by (simp add: isinstance_list_def)
  have h3: "truthy (Some ''sk-1'')"
    by (simp add: truthy_def)
  from non_array_is_rejected [OF h1 h2, where dumps = "\<lambda>j. ''{}''"
      and from_documents = "store_from_documents (\<lambda>key text. Inr (length text))"
      and api_key = "Some ''sk-1''" and db = None] h3
  show ?thesis
    by (simp add: prod_eq_iff)
qed

subsection \<open>Retrieval\<close>

text \<open>
  C2, as the code has it.  \<open>get_relevant_chunks\<close> does not fail.  On a store that does
  not exist yet, and on any other exception \<open>e\<close> of the search, it shows
  "Error fetching relevant chunks: " followed by \<open>str(e)\<close> and returns the empty list,
  which is also what a search without a match returns; when the search returns, it
  returns the same documents and shows nothing.
\<close>

theorem get_relevant_chunks_swallows_errors:
  "get_relevant_chunks (store_similarity_search embedder sim None) question api_key k
     = ([], [st_error ''Error fetching relevant chunks: the store does not exist yet''])
   \<and> (similarity_search api_key question k = Inl e \<longrightarrow>
        get_relevant_chunks similarity_search question api_key k
          = ([], [st_error (''Error fetching relevant chunks: '' @ exc_str e)]))
   \<and> (similarity_search api_key question k = Inr relevant_docs \<longrightarrow>
        get_relevant_chunks similarity_search question api_key k = (relevant_docs, []))"
  by (simp add: get_relevant_chunks_def store_similarity_search_def)

theorem get_relevant_chunks_swallows_errors_witness:
  "(get_relevant_chunks (\<lambda>key question k. Inl (Exc ''AuthenticationError'' ''bad key''))
      ''show me errors'' ''sk-1'' 5 :: document list \<times> unit st_call list)
   = ([], [st_error ''Error fetching relevant chunks: bad key''])
   \<and> (get_relevant_chunks
        (\<lambda>key question k. Inr [\<lparr>page_content = ''1'', metadata = [(''index'', 0)]\<rparr>])
        ''show me errors'' ''sk-1'' 5 :: document list \<times> unit st_call list)
   = ([\<lparr>page_content = ''1'', metadata = [(''index'', 0)]\<rparr>], [])"
proof -
  let ?fail = "\<lambda>(key::string) (question::string) (k::int).
                 Inl (Exc ''AuthenticationError'' ''bad key'') :: py_exception + document list"
  let ?docs = "[\<lparr>page_content = ''1'', metadata = [(''index'', 0)]\<rparr>]"
  let ?find = "\<lambda>(key::string) (question::string) (k::int).
                 Inr ?docs :: py_exception + document list"
  let ?embedder = "\<lambda>(key::string) (text::string). Inr (length text) :: py_exception + nat"
  let ?sim = "\<lambda>(u::nat) (v::nat). 0::nat"
  have h1: "?fail ''sk-1'' ''show me errors'' 5 = Inl (Exc ''AuthenticationError'' ''bad key'')"
    by simp
  have h2: "?find ''sk-1'' ''show me errors'' 5 = Inr ?docs"
    by simp
  have "?fail ''sk-1'' ''show me errors'' 5 = Inl (Exc ''AuthenticationError'' ''bad key'') \<longrightarrow>
        (get_relevant_chunks ?fail ''show me errors'' ''sk-1'' 5
           :: document list \<times> unit st_call list)
          = ([], [st_error (''Error fetching relevant chunks: '' @
                            exc_str (Exc ''AuthenticationError'' ''bad key''))])"
    using get_relevant_chunks_swallows_errors
      [where embedder = ?embedder and sim = ?sim and similarity_search = ?fail]
    by blast
  moreover have "?find ''sk-1'' ''show me errors'' 5 = Inr ?docs \<longrightarrow>
        (get_relevant_chunks ?find ''show me errors'' ''sk-1'' 5
           :: document list \<times> unit st_call list) = (?docs, [])"
    using get_relevant_chunks_swallows_errors
      [where embedder = ?embedder and sim = ?sim and similarity_search = ?find]
    by blast
  ultimately show ?thesis
    using h1 h2 by simp
qed

text \<open>
  C2, as the spec has it, fails: searching a store that does not exist returns the same
  list to the caller as searching an existing, empty one.
\<close>

theorem store_not_found_counterexample:
  "fst (get_relevant_chunks
          (store_similarity_search (\<lambda>key text. Inr (length text)) (\<lambda>u v. (0::nat)) None)
          ''show me errors'' ''sk-1'' 5 :: document list \<times> unit st_call list)
   = fst (get_relevant_chunks
          (store_similarity_search (\<lambda>key text. Inr (length text)) (\<lambda>u v. (0::nat)) (Some []))
          ''show me errors'' ''sk-1'' 5 :: document list \<times> unit st_call list)"
  by (simp add: get_relevant_chunks_def store_similarity_search_def nearest_def)

lemma nearest_props:
  "length (nearest sim q k stored) \<le> nat k"
  "set (nearest sim q k stored) \<subseteq> set stored"
  "sorted_wrt (\<lambda>a b. sim q (snd b) \<le> sim q (snd a)) (nearest sim q k stored)"
proof -
  show "length (nearest sim q k stored) \<le> nat k"
    by (simp add: nearest_def)
  show "set (nearest sim q k stored) \<subseteq> set stored"
    using set_take_subset [of "nat k" "rev (sort_key (\<lambda>c. sim q (snd c)) stored)"]
    by (simp add: nearest_def)
  have "sorted (map (\<lambda>c. sim q (snd c)) (sort_key (\<lambda>c. sim q (snd c)) stored))"
    by (rule sorted_sort_key)
  then have "sorted_wrt (\<lambda>a b. sim q (snd a) \<le> sim q (snd b))
               (sort_key (\<lambda>c. sim q (snd c)) stored)"
    by (simp add: sorted_map)
  then have "sorted_wrt (\<lambda>a b. sim q (snd b) \<le> sim q (snd a))
               (rev (sort_key (\<lambda>c. sim q (snd c)) stored))"
    by (simp add: sorted_wrt_rev)
  then show "sorted_wrt (\<lambda>a b. sim q (snd b) \<le> sim q (snd a)) (nearest sim q k stored)"
    unfolding nearest_def by (rule sorted_wrt_take)
qed

text \<open>
  C9.  With \<open>k\<close> between 1 and the size of the store, \<open>get_relevant_chunks\<close> returns the
  documents of at most \<open>k\<close> chunks, each of them a stored chunk, by non-increasing
  similarity to the query.
\<close>

theorem search_returns_nearest_stored_chunks:
  assumes "1 \<le> k" and "k \<le> int (length stored)"
  shows "\<exists>hits.
           fst (get_relevant_chunks (store_similarity_search embedder sim (Some stored))
                  question api_key k :: document list \<times> 'f st_call list) = map fst hits
           \<and> int (length hits) \<le> k
           \<and> set hits \<subseteq> set stored
           \<and> (\<forall>q. embedder api_key question = Inr q \<longrightarrow>
                  hits = nearest sim q k stored
                  \<and> sorted_wrt (\<lambda>a b. sim q (snd b) \<le> sim q (snd a)) hits)"
proof (cases "embedder api_key question")
  case (Inl e)
  then have "fst (get_relevant_chunks (store_similarity_search embedder sim (Some stored))
                  question api_key k :: document list \<times> 'f st_call list) = map fst []"
    by (simp add: get_relevant_chunks_def store_similarity_search_def)
  with Inl assms show ?thesis by (intro exI [of _ "[]"]) simp
next
  case (Inr q)
  then have "fst (get_relevant_chunks (store_similarity_search embedder sim (Some stored))
                  question api_key k :: document list \<times> 'f st_call list)
               = map fst (nearest sim q k stored)"
    by (simp add: get_relevant_chunks_def store_similarity_search_def)
  moreover have "int (length (nearest sim q k stored)) \<le> k"
    using nearest_props(1) [of sim q k stored] assms by linarith
  ultimately show ?thesis
    using Inr nearest_props(2,3) [of sim q k stored]
    by (intro exI [of _ "nearest sim q k stored"]) simp
qed

theorem search_returns_nearest_stored_chunks_witness:
  "fst (get_relevant_chunks
          (store_similarity_search (\<lambda>key text. Inr (length text))
             (\<lambda>u v. if u = v then 1 else (0::nat))
             (Some [(\<lparr>page_content = ''[]'', metadata = [(''index'', 0)]\<rparr>, 2),
                    (\<lparr>page_content = ''null'', metadata = [(''index'', 1)]\<rparr>, 4)]))
          ''some'' ''sk-1'' 1 :: document list \<times> unit st_call list)
   = [\<lparr>page_content = ''null'', metadata = [(''index'', 1)]\<rparr>]"
proof -
  let ?embedder = "\<lambda>(key::string) (text::string). Inr (length text) :: py_exception + nat"
  let ?sim = "\<lambda>(u::nat) (v::nat). if u = v then 1 else (0::nat)"
  let ?stored = "[(\<lparr>page_content = ''[]'', metadata = [(''index'', 0)]\<rparr>, 2::nat),
                  (\<lparr>page_content = ''null'', metadata = [(''index'', 1)]\<rparr>, 4)]"
  have h1: "(1::int) \<le> 1"
    by simp
  have h2: "(1::int) \<le> int (length ?stored)"
    by simp
  from search_returns_nearest_stored_chunks [OF h1 h2, where embedder = ?embedder
      and sim = ?sim and question = "''some''" and api_key = "''sk-1''"]
  obtain hits where
    res: "fst (get_relevant_chunks (store_similarity_search ?embedder ?sim (Some ?stored))
                 ''some'' ''sk-1'' 1 :: document list \<times> unit st_call list) = map fst hits"
    and hits: "\<forall>q. ?embedder ''sk-1'' ''some'' = Inr q \<longrightarrow> hits = nearest ?sim q 1 ?stored"
    by blast
  from hits have "hits = nearest ?sim (length ''some'') 1 ?stored"
    by simp
  then have "hits = [(\<lparr>page_content = ''null'', metadata = [(''index'', 1)]\<rparr>, 4)]"
    by (simp add: nearest_def)
  with res show ?thesis
    by simp
qed

subsection \<open>The query path\<close>

text \<open>
  C10.  When retrieval yields the empty list, and so whenever the search raises, the
  handler of "Analyze Logs" does not call \<open>analyze_logs_with_agent\<close>: no response is
  bound, no prompt is submitted and the environment is untouched.  With a key set and a
  question entered it shows "No relevant logs found for your question." after whatever
  retrieval showed.
\<close>

theorem agent_not_invoked_without_chunks:
  assumes "fst (get_relevant_chunks similarity_search question
                  (the (os_environ s ''OPENAI_API_KEY'')) num_chunks
                :: document list \<times> 'f st_call list) = []
           \<or> (\<exists>e. similarity_search (the (os_environ s ''OPENAI_API_KEY'')) question num_chunks
                    = Inl e)"
  shows "fst (snd (analyze_logs_handler loads dumps_indent fsencode run_sync similarity_search
                     question num_chunks s
                   :: 'f st_call list \<times> 'f LogAnalysisResponse option \<times> agent_state)) = None
         \<and> snd (snd (analyze_logs_handler loads dumps_indent fsencode run_sync similarity_search
                     question num_chunks s
                   :: 'f st_call list \<times> 'f LogAnalysisResponse option \<times> agent_state)) = s
         \<and> (truthy (os_environ s ''OPENAI_API_KEY'') \<and> question \<noteq> [] \<longrightarrow>
              fst (analyze_logs_handler loads dumps_indent fsencode run_sync similarity_search
                     question num_chunks s
                   :: 'f st_call list \<times> 'f LogAnalysisResponse option \<times> agent_state)
                = st_spinner (emoji_glass @ '' Searching relevant logs...'') #
                  snd (get_relevant_chunks similarity_search question
                         (the (os_environ s ''OPENAI_API_KEY'')) num_chunks) @
                  [st_warning ''No relevant logs found for your question.''])"
proof -
  have "fst (get_relevant_chunks similarity_search question
               (the (os_environ s ''OPENAI_API_KEY'')) num_chunks
             :: document list \<times> 'f st_call list) = []"
    using assms by (auto simp: get_relevant_chunks_def)
  then show ?thesis
    by (auto simp: analyze_logs_handler_def Let_def split: prod.splits)
qed

theorem agent_not_invoked_without_chunks_witness:
  "snd (analyze_logs_handler
          (\<lambda>t. Inr (JInt 1 :: unit json)) (\<lambda>j. Inr ''[1]'') (\<lambda>key. Inr key)
          (\<lambda>env prompt. Inr \<lparr>answer = ''ok'', relevant_logs = [], total_logs_analyzed = 1\<rparr>)
          (\<lambda>key question k. Inl (Exc ''StoreNotFoundError'' ''the store does not exist yet''))
          ''show me errors'' 5
          \<lparr>os_environ = [''OPENAI_API_KEY'' \<mapsto> ''sk-1''], llm_prompts = []\<rparr>)
   = (None, \<lparr>os_environ = [''OPENAI_API_KEY'' \<mapsto> ''sk-1''], llm_prompts = []\<rparr>)"
proof -
  let ?search = "\<lambda>(key::string) (question::string) (k::int).
                   Inl (Exc ''StoreNotFoundError'' ''the store does not exist yet'')
                   :: py_exception + document list"
  let ?s = "\<lparr>os_environ = [''OPENAI_API_KEY'' \<mapsto> ''sk-1''], llm_prompts = []\<rparr>"
  have h: "fst (get_relevant_chunks ?search ''show me errors''
                  (the (os_environ ?s ''OPENAI_API_KEY'')) 5
                :: document list \<times> unit st_call list) = []
           \<or> (\<exists>e. ?search (the (os_environ ?s ''OPENAI_API_KEY'')) ''show me errors'' 5 = Inl e)"
    by simp
  from agent_not_invoked_without_chunks [OF h,
      where loads = "\<lambda>t. Inr (JInt 1 :: unit json)" and dumps_indent = "\<lambda>j. Inr ''[1]''"
      and fsencode = "\<lambda>key. Inr key"
      and run_sync = "\<lambda>env prompt.
            Inr \<lparr>answer = ''ok'', relevant_logs = [], total_logs_analyzed = 1\<rparr>"]
  show ?thesis
    by (simp add: prod_eq_iff)
qed

section \<open>Properties of the json module\<close>

lemma hex_val_hex_digit_all: "\<forall>d \<in> set [0..<16]. hex_val (hex_digit d) = Some d"
  by (simp add: upt_rec hex_val_def hex_digit_def)

lemma hex_val_hex_digit: "d < 16 \<Longrightarrow> hex_val (hex_digit d) = Some d"
  using hex_val_hex_digit_all by simp

lemma hex4_val_hex4:
  assumes n: "n < 65536"
  shows "hex4_val (hex4 n) = Some n"
proof -
  define A where "A = n div 4096 mod 16"
  define B where "B = n div 256 mod 16"
  define C where "C = n div 16 mod 16"
  define D where "D = n mod 16"
  have less: "A < 16" "B < 16" "C < 16" "D < 16"
    by (simp_all add: A_def B_def C_def D_def)
  have a: "A = n div 4096"
    using n by (simp add: A_def)
  have "n div 4096 = n div 256 div 16"
    using div_mult2_eq [of n 256 16] by simp
  then have b: "n div 256 = A * 16 + B"
    using div_mult_mod_eq [of "n div 256" 16] by (simp add: a B_def)
  have "n div 256 = n div 16 div 16"
    using div_mult2_eq [of n 16 16] by simp
  then have c: "n div 16 = n div 256 * 16 + C"
    using div_mult_mod_eq [of "n div 16" 16] by (simp add: C_def)
  have d: "n = n div 16 * 16 + D"
    by (simp add: D_def)
  have eq: "((A * 16 + B) * 16 + C) * 16 + D = n"
    using b c d by simp
  have "hex4 n = [hex_digit A, hex_digit B, hex_digit C, hex_digit D]"
    by (simp add: hex4_def A_def B_def C_def D_def)
  then have "hex4_val (hex4 n) = Some (((A * 16 + B) * 16 + C) * 16 + D)"
    using less by (simp add: hex4_val_def hex_val_hex_digit)
  with eq show ?thesis
    by (simp only:)
qed

lemma length_hex4 [simp]: "length (hex4 n) = 4"
  by (simp add: hex4_def)

lemma char_of_neq:
  assumes "(c::nat) < 256" and "c \<noteq> of_char d"
  shows "(char_of c :: char) \<noteq> d"
proof
  assume "char_of c = d"
  then have "(of_char (char_of c :: char) :: nat) = of_char d"
    by simp
  with assms show False
    by simp
qed

lemma scanstring_short:
  "c \<in> {0x22, 0x5C, 0x0A, 0x0D, 0x09, 0x08, 0x0C} \<Longrightarrow>
   scanstring acc (escape_code_point c @ r) = scanstring (acc @ [c]) r"
  by (auto simp: escape_code_point_def scanstring.simps simple_escape_def)

lemma scanstring_plain:
  assumes "0x20 \<le> c" "c \<le> 0x7E" "c \<noteq> 0x22" "c \<noteq> 0x5C"
  shows "scanstring acc (escape_code_point c @ r) = scanstring (acc @ [c]) r"
proof -
  from assms have small: "c < 256"
    by simp
  then have oc: "(of_char (char_of c :: char) :: nat) = c"
    by simp
  have "(char_of c :: char) \<noteq> dquote" "(char_of c :: char) \<noteq> bslash"
    using assms small by (simp_all add: char_of_neq)
  moreover have "escape_code_point c = [char_of c]"
    using assms by (simp add: escape_code_point_def)
  ultimately show ?thesis
    using assms oc by (simp add: scanstring.simps)
qed

lemma scanstring_bmp:
  assumes "c < 0x20 \<or> 0x7E < c" "c < 0x10000" "c \<notin> {0x0A, 0x0D, 0x09, 0x08, 0x0C}"
    and "\<not> (0xD800 \<le> c \<and> c \<le> 0xDBFF)"
  shows "scanstring acc (escape_code_point c @ r) = scanstring (acc @ [c]) r"
proof -
  have esc: "escape_code_point c = bslash # CHR ''u'' # hex4 c"
    using assms by (auto simp: escape_code_point_def)
  show ?thesis
    using assms by (auto simp: esc scanstring.simps hex4_val_hex4)
qed

lemma scanstring_astral:
  assumes "0x10000 \<le> c" "c < 0x110000"
  shows "scanstring acc (escape_code_point c @ r) = scanstring (acc @ [c]) r"
proof -
  define n where "n = c - 0x10000"
  have n: "n < 0x100000" "c = 0x10000 + n"
    using assms by (auto simp: n_def)
  define hi where "hi = 0xD800 + n div 1024 mod 1024"
  define lo where "lo = 0xDC00 + n mod 1024"
  have "n div 1024 mod 1024 < 1024" "n mod 1024 < 1024"
    by simp_all
  then have hi: "0xD800 \<le> hi" "hi \<le> 0xDBFF" "hi < 65536"
    and lo: "0xDC00 \<le> lo" "lo \<le> 0xDFFF" "lo < 65536"
    unfolding hi_def lo_def by linarith+
  have esc: "escape_code_point c = bslash # CHR ''u'' # hex4 hi @ bslash # CHR ''u'' # hex4 lo"
    using assms by (simp add: escape_code_point_def hi_def lo_def n_def)
  have "n div 1024 mod 1024 = n div 1024"
    using n by simp
  then have join: "0x10000 + (hi - 0xD800) * 1024 + (lo - 0xDC00) = c"
    using n by (simp add: hi_def lo_def)
  show ?thesis
    using hi lo join by (simp add: esc scanstring.simps hex4_val_hex4)
qed

lemma scanstring_escape:
  assumes "scalar_value c"
  shows "scanstring acc (escape_code_point c @ r) = scanstring (acc @ [c]) r"
proof (cases "c \<in> {0x22, 0x5C, 0x0A, 0x0D, 0x09, 0x08, 0x0C}")
  case True
  then show ?thesis by (rule scanstring_short)
next
  case notshort: False
  show ?thesis
  proof (cases "0x20 \<le> c \<and> c \<le> 0x7E")
    case True
    with notshort show ?thesis by (intro scanstring_plain) auto
  next
    case notplain: False
    show ?thesis
    proof (cases "c < 0x10000")
      case True
      with notshort notplain assms show ?thesis
        by (intro scanstring_bmp) (auto simp: scalar_value_def)
    next
      case False
      with assms show ?thesis
        by (intro scanstring_astral) (auto simp: scalar_value_def)
    qed
  qed
qed

lemma scanstring_encoded:
  "list_all scalar_value s \<Longrightarrow>
   scanstring acc (concat (map escape_code_point s) @ dquote # r) = Inr (acc @ s, r)"
proof (induction s arbitrary: acc)
  case Nil
  show ?case by (simp add: scanstring.simps)
next
  case (Cons c s)
  then show ?case
    by (simp add: scanstring_escape)
qed

lemma scan_string_roundtrip:
  "list_all scalar_value s \<Longrightarrow>
   scanstring [] (tl (encode_basestring_ascii s) @ r) = Inr (s, r)"
  using scanstring_encoded [of s "[]" r] by (simp add: encode_basestring_ascii_def)

lemma takeWhile_digit_append:
  "number_end rest \<Longrightarrow> takeWhile is_digit (xs @ rest) = takeWhile is_digit xs"
  by (induction xs) (auto simp: number_end_def is_digit_def split: list.splits)

lemma dropWhile_digit_append:
  "number_end rest \<Longrightarrow> dropWhile is_digit (xs @ rest) = dropWhile is_digit xs @ rest"
  by (induction xs) (auto simp: number_end_def is_digit_def split: list.splits)

lemma scan_integer_append:
  "number_end rest \<Longrightarrow> scan_integer s = Some (d, s') \<Longrightarrow>
   scan_integer (s @ rest) = Some (d, s' @ rest)"
  by (auto simp: scan_integer_def takeWhile_digit_append dropWhile_digit_append
      split: list.splits if_splits)

lemma number_end_Cons:
  "number_end (c # t) \<Longrightarrow>
   \<not> is_digit c \<and> c \<noteq> CHR ''.'' \<and> c \<noteq> CHR ''e'' \<and> c \<noteq> CHR ''E'' \<and> c \<noteq> CHR ''+'' \<and> c \<noteq> CHR ''-''"
  by (auto simp: number_end_def is_digit_def)

lemma number_end_scans:
  assumes "number_end rest"
  shows "scan_fraction rest = ([], rest)"
    and "scan_fraction (p # rest) = ([], p # rest)"
    and "scan_exponent rest = ([], rest)"
    and "scan_exponent (e # rest) = ([], e # rest)"
    and "takeWhile is_digit rest = []"
proof -
  show "scan_fraction rest = ([], rest)"
    using assms by (cases rest; cases "tl rest") (auto simp: scan_fraction_def dest: number_end_Cons)
  show "scan_fraction (p # rest) = ([], p # rest)"
    using assms by (cases rest) (auto simp: scan_fraction_def dest: number_end_Cons)
  show "scan_exponent rest = ([], rest)"
    using assms by (cases rest) (auto simp: scan_exponent_def Let_def dest: number_end_Cons)
  show "takeWhile is_digit rest = []"
    using assms by (cases rest) (auto dest: number_end_Cons)
  then show "scan_exponent (e # rest) = ([], e # rest)"
    using assms by (cases rest) (auto simp: scan_exponent_def Let_def dest: number_end_Cons)
qed

lemma scan_fraction_append:
  assumes "number_end rest" and "scan_fraction s = (f, s')"
  shows "scan_fraction (s @ rest) = (f, s' @ rest)"
proof (cases s)
  case Nil
  with assms show ?thesis
    by (simp add: number_end_scans) (auto simp: scan_fraction_def)
next
  case (Cons p r)
  show ?thesis
  proof (cases r)
    case Nil
    with Cons assms show ?thesis
      by (simp add: number_end_scans) (auto simp: scan_fraction_def)
  next
    case (Cons d t)
    with \<open>s = p # r\<close> assms show ?thesis
      by (auto simp: scan_fraction_def takeWhile_digit_append dropWhile_digit_append
          split: if_splits)
  qed
qed

lemma scan_exponent_append:
  assumes "number_end rest" and "scan_exponent s = (x, s')"
  shows "scan_exponent (s @ rest) = (x, s' @ rest)"
proof (cases s)
  case Nil
  with assms show ?thesis
    by (simp add: number_end_scans) (auto simp: scan_exponent_def Let_def split: if_splits)
next
  case (Cons e r)
  show ?thesis
  proof (cases "e = CHR ''e'' \<or> e = CHR ''E''")
    case False
    with Cons assms show ?thesis
      by (auto simp: scan_exponent_def)
  next
    case isE: True
    show ?thesis
    proof (cases r)
      case Nil
      with Cons assms show ?thesis
        by (simp add: number_end_scans) (auto simp: scan_exponent_def Let_def split: if_splits)
    next
      case (Cons c t)
      show ?thesis
      proof (cases "c = CHR ''-'' \<or> c = CHR ''+''")
        case True
        with Cons \<open>s = e # r\<close> isE assms show ?thesis
          by (auto simp: scan_exponent_def Let_def takeWhile_digit_append
              dropWhile_digit_append split: if_splits)
      next
        case False
        with Cons \<open>s = e # r\<close> isE assms
          takeWhile_digit_append [OF assms(1), of "c # t"]
          dropWhile_digit_append [OF assms(1), of "c # t"]
        show ?thesis
          by (auto simp: scan_exponent_def Let_def split: if_splits)
      qed
    qed
  qed
qed

lemma match_number_append:
  assumes "number_end rest" and "match_number s = Some (tok, b, s')"
  shows "match_number (s @ rest) = Some (tok, b, s' @ rest)"
proof -
  define s1 where "s1 = (case s of [] \<Rightarrow> s | c # r \<Rightarrow> if c = CHR ''-'' then r else s)"
  define sign where "sign = (case s of [] \<Rightarrow> [] | c # r \<Rightarrow> if c = CHR ''-'' then [c] else [])"
  have unf: "match_number u =
      (case scan_integer u1 of
         None \<Rightarrow> None
       | Some (digits, s2) \<Rightarrow>
           Some (sg @ digits @ fst (scan_fraction s2) @ fst (scan_exponent (snd (scan_fraction s2))),
                 fst (scan_fraction s2) \<noteq> [] \<or> fst (scan_exponent (snd (scan_fraction s2))) \<noteq> [],
                 snd (scan_exponent (snd (scan_fraction s2)))))"
    if "u1 = (case u of [] \<Rightarrow> u | c # r \<Rightarrow> if c = CHR ''-'' then r else u)"
      and "sg = (case u of [] \<Rightarrow> [] | c # r \<Rightarrow> if c = CHR ''-'' then [c] else [])"
    for u u1 sg
    using that by (auto simp: match_number_def Let_def split: list.splits option.splits prod.splits)
  from assms(2) unf [OF s1_def sign_def]
  obtain digits s2 where int: "scan_integer s1 = Some (digits, s2)"
    by (auto split: option.splits)
  have nonempty: "s \<noteq> []"
    using int by (auto simp: s1_def scan_integer_def)
  obtain f s3 where fr: "scan_fraction s2 = (f, s3)"
    by (cases "scan_fraction s2")
  obtain x s4 where ex: "scan_exponent s3 = (x, s4)"
    by (cases "scan_exponent s3")
  from assms(2) unf [OF s1_def sign_def] int fr ex
  have res: "tok = sign @ digits @ f @ x" "b = (f \<noteq> [] \<or> x \<noteq> [])" "s' = s4"
    by auto
  have s1': "s1 @ rest = (case s @ rest of [] \<Rightarrow> s @ rest | c # r \<Rightarrow> if c = CHR ''-'' then r else s @ rest)"
    and sign': "sign = (case s @ rest of [] \<Rightarrow> [] | c # r \<Rightarrow> if c = CHR ''-'' then [c] else [])"
    using nonempty by (cases s; simp add: s1_def sign_def)+
  show ?thesis
    using unf [OF s1' sign'] res
      scan_integer_append [OF assms(1) int]
      scan_fraction_append [OF assms(1) fr]
      scan_exponent_append [OF assms(1) ex]
    by simp
qed

lemma digit_chars:
  "\<forall>d \<in> set [0..<10]. is_digit (''0123456789'' ! d)
      \<and> (of_char (''0123456789'' ! d) :: nat) - 48 = d
      \<and> (0 < d \<longrightarrow> ''0123456789'' ! d \<noteq> CHR ''0'')"
  by (simp add: upt_rec is_digit_def)

lemma digit_char:
  assumes "d < 10"
  shows "is_digit (''0123456789'' ! d)"
    and "(of_char (''0123456789'' ! d) :: nat) - 48 = d"
    and "0 < d \<Longrightarrow> ''0123456789'' ! d \<noteq> CHR ''0''"
  using digit_chars assms by simp_all

lemma str_nat_digits: "str_nat n \<noteq> [] \<and> list_all is_digit (str_nat n)"
proof (induction n rule: str_nat.induct)
  case (1 n)
  show ?case
  proof (cases "n < 10")
    case True
    then show ?thesis
      by (simp add: str_nat.simps [of n] digit_char)
  next
    case False
    with 1 show ?thesis
      by (simp add: str_nat.simps [of n] digit_char)
  qed
qed

lemma str_nat_no_leading_zero: "0 < n \<Longrightarrow> hd (str_nat n) \<noteq> CHR ''0''"
proof (induction n rule: str_nat.induct)
  case (1 n)
  show ?case
  proof (cases "n < 10")
    case True
    with "1.prems" have "''0123456789'' ! n \<noteq> CHR ''0''"
      by (intro digit_char(3))
    moreover have "str_nat n = [''0123456789'' ! n]"
      using True by (simp add: str_nat.simps [of n])
    ultimately show ?thesis
      by simp
  next
    case False
    then have "0 < n div 10"
      by simp
    with False 1 str_nat_digits [of "n div 10"] show ?thesis
      by (simp add: str_nat.simps [of n])
  qed
qed

lemma nat_of_digits_snoc:
  "nat_of_digits (ds @ [c]) = 10 * nat_of_digits ds + (of_char c - 48)"
  by (simp add: nat_of_digits_def)

lemma nat_of_digits_str_nat: "nat_of_digits (str_nat n) = n"
proof (induction n rule: str_nat.induct)
  case (1 n)
  show ?case
  proof (cases "n < 10")
    case True
    then show ?thesis
      by (simp add: str_nat.simps [of n] digit_char nat_of_digits_def)
  next
    case False
    with 1 show ?thesis
      by (simp add: str_nat.simps [of n] nat_of_digits_snoc digit_char)
  qed
qed

lemma takeWhile_all: "list_all P xs \<Longrightarrow> takeWhile P xs = xs \<and> dropWhile P xs = []"
  by (induction xs) auto

lemma scan_integer_str_nat: "scan_integer (str_nat n) = Some (str_nat n, [])"
proof (cases "n = 0")
  case True
  then show ?thesis
    by (simp add: str_nat.simps [of 0] scan_integer_def)
next
  case False
  obtain c ds where cs: "str_nat n = c # ds"
    using str_nat_digits [of n] by (cases "str_nat n") auto
  with False str_nat_no_leading_zero [of n] str_nat_digits [of n]
  show ?thesis
    by (simp add: scan_integer_def takeWhile_all)
qed

lemma is_digit_not_minus: "is_digit c \<Longrightarrow> c \<noteq> CHR ''-''"
  by (auto simp: is_digit_def)

lemma match_number_str_int: "match_number (str_int i) = Some (str_int i, False, [])"
proof (cases "i < 0")
  case True
  then show ?thesis
    by (simp add: match_number_def str_int_def scan_integer_str_nat
        scan_fraction_def scan_exponent_def)
next
  case False
  obtain c ds where cs: "str_nat (nat i) = c # ds"
    using str_nat_digits [of "nat i"] by (cases "str_nat (nat i)") auto
  with str_nat_digits [of "nat i"] have "c \<noteq> CHR ''-''"
    by (simp add: is_digit_not_minus)
  with False cs scan_integer_str_nat [of "nat i"] show ?thesis
    by (simp add: match_number_def str_int_def scan_fraction_def scan_exponent_def)
qed

lemma int_of_token_str_int: "int_of_token (str_int i) = i"
proof (cases "i < 0")
  case True
  then show ?thesis
    by (simp add: int_of_token_def str_int_def nat_of_digits_str_nat)
next
  case False
  obtain c ds where cs: "str_nat (nat i) = c # ds"
    using str_nat_digits [of "nat i"] by (cases "str_nat (nat i)") auto
  with str_nat_digits [of "nat i"] have "c \<noteq> CHR ''-''"
    by (simp add: is_digit_not_minus)
  with False cs nat_of_digits_str_nat [of "nat i"] show ?thesis
    by (simp add: int_of_token_def str_int_def)
qed

lemma match_number_first:
  assumes "match_number s = Some (tok, b, r)"
  shows "\<exists>c t. s = c # t \<and> (is_digit c \<or> (c = CHR ''-'' \<and> (\<exists>d u. t = d # u \<and> is_digit d)))"
  using assms
  by (auto simp: match_number_def scan_integer_def is_digit_def Let_def
      split: list.splits if_splits option.splits prod.splits)

lemma is_digit_first:
  "is_digit c \<Longrightarrow>
   c \<noteq> dquote \<and> c \<noteq> CHR ''n'' \<and> c \<noteq> CHR ''t'' \<and> c \<noteq> CHR ''f'' \<and> c \<noteq> CHR ''N''
   \<and> c \<noteq> CHR ''I'' \<and> c \<noteq> CHR ''-'' \<and> c \<noteq> CHR ''{'' \<and> c \<noteq> CHR ''['' \<and> c \<noteq> CHR '']''
   \<and> c \<noteq> CHR ''}'' \<and> c \<noteq> CHR '','' \<and> \<not> is_ws c"
  by (auto simp: is_digit_def is_ws_def)

lemma scan_atom_number:
  assumes "match_number s = Some (tok, b, r)"
  shows "scan_atom parse_float s
           = Inr (if b then JFloat (parse_float tok) else JInt (int_of_token tok), r)"
proof -
  from match_number_first [OF assms] obtain c t where s: "s = c # t"
    and c: "is_digit c \<or> (c = CHR ''-'' \<and> (\<exists>d u. t = d # u \<and> is_digit d))"
    by blast
  from c show ?thesis
  proof
    assume "is_digit c"
    from is_digit_first [OF this] assms s show ?thesis
      by (simp add: scan_atom_def)
  next
    assume "c = CHR ''-'' \<and> (\<exists>d u. t = d # u \<and> is_digit d)"
    then obtain d u where "c = CHR ''-''" "t = d # u" "is_digit d"
      by blast
    with is_digit_first [of d] assms s show ?thesis
      by (simp add: scan_atom_def)
  qed
qed

lemma dict_setitem_new: "k \<notin> fst ` set ps \<Longrightarrow> dict_setitem ps k v = ps @ [(k, v)]"
  by (induction ps) auto

lemma encode_first: "encode_basestring_ascii s = dquote # tl (encode_basestring_ascii s)"
  by (simp add: encode_basestring_ascii_def)

lemma str_int_first: "\<exists>c t. str_int i = c # t \<and> (is_digit c \<or> c = CHR ''-'')"
proof (cases "i < 0")
  case True
  then show ?thesis by (simp add: str_int_def)
next
  case False
  obtain c ds where cs: "str_nat (nat i) = c # ds"
    using str_nat_digits [of "nat i"] by (cases "str_nat (nat i)") auto
  with str_nat_digits [of "nat i"] have "is_digit c"
    by simp
  with cs False show ?thesis
    by (simp add: str_int_def)
qed

lemma number_first_start: "is_digit c \<or> c = CHR ''-'' \<Longrightarrow> value_start c"
  by (auto simp: value_start_def is_ws_def is_digit_def)

lemma json_dumps_first:
  "wf_json fs pf x \<Longrightarrow> \<exists>c t. json_dumps fs x = c # t \<and> value_start c"
proof (cases x)
  case (JInt i)
  with str_int_first [of i] number_first_start show ?thesis
    by fastforce
next
  case (JFloat f)
  assume "wf_json fs pf x"
  with JFloat have "match_number (fs f) = Some (fs f, True, [])"
    by simp
  from match_number_first [OF this] obtain c t where
    "fs f = c # t" "is_digit c \<or> c = CHR ''-''"
    by blast
  with number_first_start [of c] JFloat show ?thesis
    by simp
next
  case JNull
  then show ?thesis by (simp add: value_start_def is_ws_def)
next
  case (JBool b)
  then show ?thesis by (cases b) (simp_all add: value_start_def is_ws_def)
next
  case (JStr s)
  then show ?thesis by (simp add: value_start_def is_ws_def encode_basestring_ascii_def)
next
  case (JArr xs)
  then show ?thesis by (simp add: value_start_def is_ws_def)
next
  case (JObj kvs)
  then show ?thesis by (simp add: value_start_def is_ws_def)
qed

lemma skip_ws_start: "value_start c \<Longrightarrow> skip_ws (c # t) = c # t"
  by (simp add: skip_ws_def value_start_def)

lemma skip_ws_space: "skip_ws (CHR '' '' # t) = skip_ws t"
  by (simp add: skip_ws_def is_ws_def)

lemma number_end_delims [simp]:
  "number_end []" "number_end (CHR '','' # t)" "number_end (CHR '']'' # t)"
  "number_end (CHR ''}'' # t)"
  by (simp_all add: number_end_def)

lemma scan_atom_dumps:
  assumes "wf_json fs pf x" and "number_end rest"
    and "\<forall>xs. x \<noteq> JArr xs" and "\<forall>kvs. x \<noteq> JObj kvs"
  shows "scan_atom pf (json_dumps fs x @ rest) = Inr (x, rest)"
proof (cases x)
  case JNull
  then show ?thesis by (simp add: scan_atom_def)
next
  case (JBool b)
  then show ?thesis by (cases b) (simp_all add: scan_atom_def)
next
  case (JInt i)
  from match_number_append [OF assms(2) match_number_str_int [of i]]
  have "match_number (str_int i @ rest) = Some (str_int i, False, rest)"
    by simp
  from scan_atom_number [OF this, where parse_float = pf] JInt show ?thesis
    by (simp add: int_of_token_str_int)
next
  case (JFloat f)
  with assms(1) have tok: "match_number (fs f) = Some (fs f, True, [])" and "pf (fs f) = f"
    by simp_all
  from match_number_append [OF assms(2) tok]
  have "match_number (fs f @ rest) = Some (fs f, True, rest)"
    by simp
  from scan_atom_number [OF this, where parse_float = pf] JFloat \<open>pf (fs f) = f\<close> show ?thesis
    by simp
next
  case (JStr s)
  with assms(1) have "list_all scalar_value s"
    by simp
  from scanstring_encoded [OF this, of "[]" rest] JStr show ?thesis
    by (simp add: scan_atom_def encode_basestring_ascii_def)
next
  case (JArr xs)
  with assms(3) show ?thesis by simp
next
  case (JObj kvs)
  with assms(4) show ?thesis by simp
qed

lemma scan_once_atom:
  assumes "wf_json fs pf x" and "number_end rest"
    and "\<forall>xs. x \<noteq> JArr xs" and "\<forall>kvs. x \<noteq> JObj kvs"
  shows "scan_once pf (Suc n) (json_dumps fs x @ rest) = Inr (x, rest)"
proof -
  from json_dumps_first [OF assms(1)] obtain c t where ct: "json_dumps fs x = c # t"
    by blast
  have "c \<noteq> CHR ''{'' \<and> c \<noteq> CHR ''[''"
  proof (cases x)
    case (JInt i)
    with ct str_int_first [of i] is_digit_first [of c] show ?thesis by auto
  next
    case (JFloat f)
    with assms(1) have "match_number (fs f) = Some (fs f, True, [])" by simp
    from match_number_first [OF this] JFloat ct is_digit_first [of c] show ?thesis by auto
  next
    case (JBool b)
    with ct show ?thesis by (cases b) auto
  next
    case (JStr s)
    with ct show ?thesis by (auto simp: encode_basestring_ascii_def)
  next
    case (JArr xs)
    with assms(3) show ?thesis by simp
  next
    case (JObj kvs)
    with assms(4) show ?thesis by simp
  next
    case JNull
    with ct show ?thesis by auto
  qed
  then have "scan_once pf (Suc n) (json_dumps fs x @ rest) = scan_atom pf (json_dumps fs x @ rest)"
    by (simp add: ct scan_once.simps)
  with scan_atom_dumps [OF assms] show ?thesis
    by simp
qed

lemma dumps_items_first:
  "xs \<noteq> [] \<Longrightarrow> wf_items fs pf xs \<Longrightarrow> \<exists>c t. dumps_items fs xs = c # t \<and> value_start c"
proof (cases xs)
  case Nil
  assume "xs \<noteq> []"
  with Nil show ?thesis by simp
next
  case (Cons x ys)
  assume "wf_items fs pf xs"
  with Cons have "wf_json fs pf x" by simp
  from json_dumps_first [OF this] Cons show ?thesis
    by (cases ys) auto
qed

lemma dumps_members_first:
  "kvs \<noteq> [] \<Longrightarrow> \<exists>t. dumps_members fs kvs = dquote # t"
proof (cases kvs)
  case Nil
  assume "kvs \<noteq> []"
  with Nil show ?thesis by simp
next
  case (Cons p ms)
  then show ?thesis
    by (cases p; cases ms) (auto simp: encode_basestring_ascii_def)
qed

lemma scan_key_dumps:
  assumes "list_all scalar_value k" and "value_start c"
  shows "scan_key (encode_basestring_ascii k @ CHR '':'' # CHR '' '' # c # t) = Inr (k, c # t)"
  using scanstring_encoded [OF assms(1), of "[]" "CHR '':'' # CHR '' '' # c # t"] assms(2)
  by (simp add: scan_key_def encode_basestring_ascii_def skip_ws_def is_ws_def value_start_def)

lemma parse_array_last:
  assumes "scan_once pf m (json_dumps fs x @ CHR '']'' # rest) = Inr (x, CHR '']'' # rest)"
  shows "parse_array pf (Suc m) acc (json_dumps fs x @ CHR '']'' # rest)
           = Inr (JArr (acc @ [x]), rest)"
  by (simp add: parse_array.simps assms skip_ws_def is_ws_def)

lemma parse_array_more:
  assumes "scan_once pf m (json_dumps fs x @ CHR '','' # CHR '' '' # c # t)
             = Inr (x, CHR '','' # CHR '' '' # c # t)"
    and "value_start c"
  shows "parse_array pf (Suc m) acc (json_dumps fs x @ CHR '','' # CHR '' '' # c # t)
           = parse_array pf m (acc @ [x]) (c # t)"
  using assms(2)
  by (simp add: parse_array.simps assms(1) skip_ws_def is_ws_def value_start_def)

lemma parse_object_last:
  assumes "list_all scalar_value k" and "wf_json fs pf v"
    and "scan_once pf m (json_dumps fs v @ CHR ''}'' # rest) = Inr (v, CHR ''}'' # rest)"
  shows "parse_object pf (Suc m) acc
           (encode_basestring_ascii k @ CHR '':'' # CHR '' '' # json_dumps fs v @ CHR ''}'' # rest)
           = Inr (JObj (dict_setitem acc k v), rest)"
proof -
  from json_dumps_first [OF assms(2)] obtain c t where
    ct: "json_dumps fs v = c # t" "value_start c"
    by blast
  from scan_key_dumps [OF assms(1) ct(2), of "t @ CHR ''}'' # rest"] assms(3) ct
  show ?thesis
    by (simp add: parse_object.simps skip_ws_def is_ws_def)
qed

lemma parse_object_more:
  assumes "list_all scalar_value k" and "wf_json fs pf v"
    and "scan_once pf m (json_dumps fs v @ CHR '','' # CHR '' '' # dquote # u)
           = Inr (v, CHR '','' # CHR '' '' # dquote # u)"
  shows "parse_object pf (Suc m) acc
           (encode_basestring_ascii k @ CHR '':'' # CHR '' '' # json_dumps fs v
              @ CHR '','' # CHR '' '' # dquote # u)
           = parse_object pf m (dict_setitem acc k v) (dquote # u)"
proof -
  from json_dumps_first [OF assms(2)] obtain c t where
    ct: "json_dumps fs v = c # t" "value_start c"
    by blast
  from scan_key_dumps [OF assms(1) ct(2), of "t @ CHR '','' # CHR '' '' # dquote # u"] assms(3) ct
  show ?thesis
    by (simp add: parse_object.simps skip_ws_def is_ws_def)
qed

lemma scan_once_array:
  assumes "value_start c"
  shows "scan_once pf (Suc n) (CHR ''['' # c # t) = parse_array pf n [] (c # t)"
  using assms by (simp add: scan_once.simps skip_ws_def value_start_def)

lemma scan_once_object:
  "scan_once pf (Suc n) (CHR ''{'' # dquote # t) = parse_object pf n [] (dquote # t)"
  by (simp add: scan_once.simps skip_ws_def is_ws_def)

lemma scan_once_empty:
  "scan_once pf (Suc n) (CHR ''['' # CHR '']'' # rest) = Inr (JArr [], rest)"
  "scan_once pf (Suc n) (CHR ''{'' # CHR ''}'' # rest) = Inr (JObj [], rest)"
  by (simp_all add: scan_once.simps skip_ws_def is_ws_def)

lemma dumps_roundtrip_steps:
  fixes fs :: "'f \<Rightarrow> string" and pf :: "string \<Rightarrow> 'f"
  shows "\<forall>n rest. wf_json fs pf x \<longrightarrow> depth_fuel x \<le> n \<longrightarrow> number_end rest \<longrightarrow>
           scan_once pf n (json_dumps fs x @ rest) = Inr (x, rest)"
    and "\<forall>n (acc :: 'f json list) rest. xs \<noteq> [] \<longrightarrow> wf_items fs pf xs \<longrightarrow> items_fuel xs \<le> n \<longrightarrow>
           parse_array pf n acc (dumps_items fs xs @ CHR '']'' # rest)
             = Inr (JArr (acc @ xs), rest)"
    and "\<forall>n (acc :: (pystr \<times> 'f json) list) rest. kvs \<noteq> [] \<longrightarrow> wf_members fs pf kvs \<longrightarrow>
           distinct (map fst acc @ map fst kvs) \<longrightarrow> members_fuel kvs \<le> n \<longrightarrow>
           parse_object pf n acc (dumps_members fs kvs @ CHR ''}'' # rest)
             = Inr (JObj (acc @ kvs), rest)"
proof (induction fs x and fs xs and fs kvs rule: json_dumps_dumps_items_dumps_members.induct)
  case (1 fs)
  show ?case
  proof (intro allI impI)
    fix n rest assume "wf_json fs pf JNull" "depth_fuel (JNull :: 'f json) \<le> n" "number_end rest"
    then show "scan_once pf n (json_dumps fs JNull @ rest) = Inr (JNull, rest)"
      using scan_once_atom [of fs pf JNull rest "n - 1"] by (cases n) simp_all
  qed
next
  case (2 fs b)
  show ?case
  proof (intro allI impI)
    fix n rest assume "wf_json fs pf (JBool b)" "depth_fuel (JBool b :: 'f json) \<le> n" "number_end rest"
    then show "scan_once pf n (json_dumps fs (JBool b) @ rest) = Inr (JBool b, rest)"
      using scan_once_atom [of fs pf "JBool b" rest "n - 1"] by (cases n) simp_all
  qed
next
  case (3 fs i)
  show ?case
  proof (intro allI impI)
    fix n rest assume "wf_json fs pf (JInt i)" "depth_fuel (JInt i :: 'f json) \<le> n" "number_end rest"
    then show "scan_once pf n (json_dumps fs (JInt i) @ rest) = Inr (JInt i, rest)"
      using scan_once_atom [of fs pf "JInt i" rest "n - 1"] by (cases n) simp_all
  qed
next
  case (4 fs f)
  show ?case
  proof (intro allI impI)
    fix n rest assume "wf_json fs pf (JFloat f)" "depth_fuel (JFloat f) \<le> n" "number_end rest"
    then show "scan_once pf n (json_dumps fs (JFloat f) @ rest) = Inr (JFloat f, rest)"
      using scan_once_atom [of fs pf "JFloat f" rest "n - 1"] by (cases n) simp_all
  qed
next
  case (5 fs s)
  show ?case
  proof (intro allI impI)
    fix n rest assume "wf_json fs pf (JStr s)" "depth_fuel (JStr s :: 'f json) \<le> n" "number_end rest"
    then show "scan_once pf n (json_dumps fs (JStr s) @ rest) = Inr (JStr s, rest)"
      using scan_once_atom [of fs pf "JStr s" rest "n - 1"] by (cases n) simp_all
  qed
next
  case (6 fs xs)
  show ?case
  proof (intro allI impI)
    fix n rest
    assume wf: "wf_json fs pf (JArr xs)" and fuel: "depth_fuel (JArr xs) \<le> n"
    then obtain m where n: "n = Suc m" and m: "items_fuel xs \<le> m"
      by (cases n) simp_all
    show "scan_once pf n (json_dumps fs (JArr xs) @ rest) = Inr (JArr xs, rest)"
    proof (cases "xs = []")
      case True
      then show ?thesis by (simp add: n scan_once_empty)
    next
      case False
      from wf have wfi: "wf_items fs pf xs" by simp
      from dumps_items_first [OF False wfi] obtain c t where
        ct: "dumps_items fs xs = c # t" "value_start c"
        by blast
      from 6 False wfi m
      have "parse_array pf m [] (dumps_items fs xs @ CHR '']'' # rest) = Inr (JArr ([] @ xs), rest)"
        by blast
      with ct show ?thesis
        by (simp add: n scan_once_array)
    qed
  qed
next
  case (7 fs kvs)
  show ?case
  proof (intro allI impI)
    fix n rest
    assume wf: "wf_json fs pf (JObj kvs)" and fuel: "depth_fuel (JObj kvs) \<le> n"
    then obtain m where n: "n = Suc m" and m: "members_fuel kvs \<le> m"
      by (cases n) simp_all
    show "scan_once pf n (json_dumps fs (JObj kvs) @ rest) = Inr (JObj kvs, rest)"
    proof (cases "kvs = []")
      case True
      then show ?thesis by (simp add: n scan_once_empty)
    next
      case False
      from wf have wfm: "wf_members fs pf kvs" and dist: "distinct (map fst [] @ map fst kvs)"
        by simp_all
      from dumps_members_first [OF False] obtain t where t: "dumps_members fs kvs = dquote # t"
        by blast
      from 7 False wfm dist m
      have "parse_object pf m [] (dumps_members fs kvs @ CHR ''}'' # rest)
              = Inr (JObj ([] @ kvs), rest)"
        by blast
      with t show ?thesis
        by (simp add: n scan_once_object)
    qed
  qed
next
  case (8 fs)
  show ?case by simp
next
  case (9 fs x)
  show ?case
  proof (intro allI impI)
    fix n and acc :: "'f json list" and rest :: string
    assume wf: "wf_items fs pf [x]" and fuel: "items_fuel [x] \<le> n"
    then obtain m where n: "n = Suc m" and m: "depth_fuel x \<le> m"
      by (cases n) simp_all
    from 9 wf m have "scan_once pf m (json_dumps fs x @ CHR '']'' # rest) = Inr (x, CHR '']'' # rest)"
      by simp
    from parse_array_last [OF this]
    show "parse_array pf n acc (dumps_items fs [x] @ CHR '']'' # rest) = Inr (JArr (acc @ [x]), rest)"
      by (simp add: n)
  qed
next
  case (10 fs x y ys)
  show ?case
  proof (intro allI impI)
    fix n and acc :: "'f json list" and rest :: string
    assume wf: "wf_items fs pf (x # y # ys)" and fuel: "items_fuel (x # y # ys) \<le> n"
    then obtain m where n: "n = Suc m" and m: "depth_fuel x \<le> m" "items_fuel (y # ys) \<le> m"
      by (cases n) simp_all
    from wf have wfx: "wf_json fs pf x" and wfr: "wf_items fs pf (y # ys)"
      by simp_all
    from dumps_items_first [OF _ wfr] obtain c t where
      ct: "dumps_items fs (y # ys) = c # t" "value_start c"
      by blast
    let ?tail = "t @ CHR '']'' # rest"
    from "10.IH"(1) wfx m(1)
    have "scan_once pf m (json_dumps fs x @ CHR '','' # CHR '' '' # c # ?tail)
            = Inr (x, CHR '','' # CHR '' '' # c # ?tail)"
      by simp
    from parse_array_more [OF this ct(2)]
    have "parse_array pf n acc (json_dumps fs x @ CHR '','' # CHR '' '' # c # ?tail)
            = parse_array pf m (acc @ [x]) (c # ?tail)"
      by (simp add: n)
    also from "10.IH"(2) wfr m(2)
    have "parse_array pf m (acc @ [x]) (dumps_items fs (y # ys) @ CHR '']'' # rest)
            = Inr (JArr ((acc @ [x]) @ y # ys), rest)"
      by blast
    then have "parse_array pf m (acc @ [x]) (c # ?tail) = Inr (JArr (acc @ x # y # ys), rest)"
      by (simp add: ct)
    finally show "parse_array pf n acc (dumps_items fs (x # y # ys) @ CHR '']'' # rest)
                    = Inr (JArr (acc @ x # y # ys), rest)"
      by (simp add: ct)
  qed
next
  case (11 fs)
  show ?case by simp
next
  case (12 fs k v)
  show ?case
  proof (intro allI impI)
    fix n and acc :: "(pystr \<times> 'f json) list" and rest :: string
    assume wf: "wf_members fs pf [(k, v)]" and fuel: "members_fuel [(k, v)] \<le> n"
      and dist: "distinct (map fst acc @ map fst [(k, v)])"
    then obtain m where n: "n = Suc m" and m: "depth_fuel v \<le> m"
      by (cases n) simp_all
    from wf have wfk: "list_all scalar_value k" and wfv: "wf_json fs pf v"
      by simp_all
    from dist have new: "k \<notin> fst ` set acc"
      by auto
    from 12 wfv m have "scan_once pf m (json_dumps fs v @ CHR ''}'' # rest) = Inr (v, CHR ''}'' # rest)"
      by simp
    from parse_object_last [OF wfk wfv this, where acc = acc]
    show "parse_object pf n acc (dumps_members fs [(k, v)] @ CHR ''}'' # rest)
            = Inr (JObj (acc @ [(k, v)]), rest)"
      by (simp add: n dict_setitem_new [OF new])
  qed
next
  case (13 fs k v p ms)
  show ?case
  proof (intro allI impI)
    fix n and acc :: "(pystr \<times> 'f json) list" and rest :: string
    assume wf: "wf_members fs pf ((k, v) # p # ms)"
      and fuel: "members_fuel ((k, v) # p # ms) \<le> n"
      and dist: "distinct (map fst acc @ map fst ((k, v) # p # ms))"
    then obtain m where n: "n = Suc m" and m: "depth_fuel v \<le> m" "members_fuel (p # ms) \<le> m"
      by (cases n) simp_all
    from wf have wfk: "list_all scalar_value k" and wfv: "wf_json fs pf v"
      and wfr: "wf_members fs pf (p # ms)"
      by simp_all
    from dist have new: "k \<notin> fst ` set acc"
      and dist': "distinct (map fst (acc @ [(k, v)]) @ map fst (p # ms))"
      by auto
    from dumps_members_first [of "p # ms" fs] obtain u where
      u: "dumps_members fs (p # ms) = dquote # u"
      by blast
    let ?tail = "u @ CHR ''}'' # rest"
    from "13.IH"(1) wfv m(1)
    have "scan_once pf m (json_dumps fs v @ CHR '','' # CHR '' '' # dquote # ?tail)
            = Inr (v, CHR '','' # CHR '' '' # dquote # ?tail)"
      by simp
    from parse_object_more [OF wfk wfv this, where acc = acc]
    have "parse_object pf n acc
            (encode_basestring_ascii k @ CHR '':'' # CHR '' '' # json_dumps fs v
               @ CHR '','' # CHR '' '' # dquote # ?tail)
            = parse_object pf m (acc @ [(k, v)]) (dquote # ?tail)"
      by (simp add: n dict_setitem_new [OF new])
    also from "13.IH"(2) wfr dist' m(2)
    have "parse_object pf m (acc @ [(k, v)]) (dumps_members fs (p # ms) @ CHR ''}'' # rest)
            = Inr (JObj ((acc @ [(k, v)]) @ p # ms), rest)"
      by blast
    then have "parse_object pf m (acc @ [(k, v)]) (dquote # ?tail)
                 = Inr (JObj (acc @ (k, v) # p # ms), rest)"
      by (simp add: u)
    finally show "parse_object pf n acc (dumps_members fs ((k, v) # p # ms) @ CHR ''}'' # rest)
                    = Inr (JObj (acc @ (k, v) # p # ms), rest)"
      by (simp add: u)
  qed
qed

lemma fuel_bound:
  fixes fs :: "'f \<Rightarrow> string"
  shows "depth_fuel x \<le> 2 * length (json_dumps fs x) + 1"
    and "items_fuel xs \<le> 2 * length (dumps_items fs xs) + 2"
    and "members_fuel kvs \<le> 2 * length (dumps_members fs kvs) + 2"
  by (induction fs x and fs xs and fs kvs rule: json_dumps_dumps_items_dumps_members.induct)
     simp_all

lemma json_loads_dumps:
  assumes "wf_json fs pf x"
  shows "json_loads pf (json_dumps fs x) = Inr x"
proof -
  from json_dumps_first [OF assms] obtain c t where ct: "json_dumps fs x = c # t" "value_start c"
    by blast
  then have ws: "skip_ws (json_dumps fs x) = json_dumps fs x"
    by (simp add: skip_ws_start)
  have "scan_once pf (2 * length (json_dumps fs x) + 1) (json_dumps fs x @ []) = Inr (x, [])"
    by (rule dumps_roundtrip_steps(1) [rule_format])
       (use assms fuel_bound(1) [of x fs] in simp_all)
  moreover have "skip_ws [] = []"
    by (simp add: skip_ws_def)
  ultimately show ?thesis
    by (simp add: json_loads_def ws)
qed

text \<open>
  C7.  A well-formed log entry serialized by the upload handler and parsed by the context
  loop is the same value again: \<open>json.loads(json.dumps(x)) == x\<close>, and the document made
  of \<open>x\<close> contributes \<open>x\<close> itself to the context.
\<close>

theorem serialized_log_parses_back:
  assumes "wf_json floatstr parse_float x"
  shows "json_loads parse_float (json_dumps floatstr x) = Inr x
         \<and> context_object (json_loads parse_float) (make_document (json_dumps floatstr) (i, x)) = x"
  using json_loads_dumps [OF assms] by (simp add: context_object_def make_document_def)

lemma ingested_chunks_parse_back:
  assumes "wf_items floatstr parse_float json_data"
  shows "prepare_context (json_loads parse_float) (build_documents (json_dumps floatstr) json_data)
           = Inr json_data"
proof -
  have each: "\<forall>p \<in> set ps. wf_json floatstr parse_float (snd p) \<Longrightarrow>
      context_logs_loop (json_loads parse_float) acc (map (make_document (json_dumps floatstr)) ps)
        = Inr (acc @ map snd ps)" for ps :: "(nat \<times> 'a json) list" and acc
  proof (induction ps arbitrary: acc)
    case Nil
    show ?case by simp
  next
    case (Cons p ps)
    obtain i x where p: "p = (i, x)" by (cases p)
    with Cons.prems have "json_loads parse_float (json_dumps floatstr x) = Inr x"
      by (simp add: json_loads_dumps)
    with Cons p show ?case
      by (simp add: make_document_def)
  qed
  have wf: "\<forall>p \<in> set (enumerate 0 json_data). wf_json floatstr parse_float (snd p)"
  proof -
    have "wf_items floatstr parse_float ys \<Longrightarrow> \<forall>y \<in> set ys. wf_json floatstr parse_float y"
      for ys by (induction ys) auto
    with assms show ?thesis
      by (auto simp: in_set_enumerate_eq)
  qed
  show ?thesis
    using each [OF wf, of "[]"] by (simp add: prepare_context_def build_documents_map)
qed

theorem serialized_log_parses_back_witness:
  "wf_json (\<lambda>f. if f then ''1.5'' else ''-2e-05'') (\<lambda>t. t = ''1.5'')
     (JObj [(str ''level'', JStr (str ''ERROR'')), (str ''code'', JInt (- 7)),
            (str ''took'', JFloat True), (str ''tags'', JArr [JNull, JBool False])])
   \<and> json_loads (\<lambda>t. t = ''1.5'')
       (json_dumps (\<lambda>f. if f then ''1.5'' else ''-2e-05'')
          (JObj [(str ''level'', JStr (str ''ERROR'')), (str ''code'', JInt (- 7)),
                 (str ''took'', JFloat True), (str ''tags'', JArr [JNull, JBool False])]))
     = Inr (JObj [(str ''level'', JStr (str ''ERROR'')), (str ''code'', JInt (- 7)),
                  (str ''took'', JFloat True), (str ''tags'', JArr [JNull, JBool False])])"
proof -
  let ?fs = "\<lambda>f::bool. if f then ''1.5'' else ''-2e-05''"
  let ?pf = "\<lambda>t::string. t = ''1.5''"
  let ?x = "JObj [(str ''level'', JStr (str ''ERROR'')), (str ''code'', JInt (- 7)),
                  (str ''took'', JFloat True), (str ''tags'', JArr [JNull, JBool False])]"
  have tok: "match_number ''1.5'' = Some (''1.5'', True, [])"
    by (simp add: match_number_def scan_integer_def scan_fraction_def scan_exponent_def
        is_digit_def)
  have h: "wf_json ?fs ?pf ?x"
    by (simp add: str_def scalar_value_def tok)
  from serialized_log_parses_back [OF h, of 0] h show ?thesis
    by simp
qed

end
